theory Spec2Isabelle
  imports Main "HOL-Library.Word" "HOL-Library.Sublist"
begin

section \<open>Rate-limited connection wrappers (limiter/wrapper/conn.go)\<close>

text \<open>
  A shallow embedding of the three wrappers of \<^verbatim>\<open>conn.go\<close>: \<^verbatim>\<open>serverConn\<close> (stream),
  \<^verbatim>\<open>packetConn\<close> (datagram) and \<^verbatim>\<open>udpConn\<close> (datagram with capability probes).

  The wrapped connection, the limiters and the address parser are external to the file.
  They are modelled as explicit state with the interface's methods collected in an
  environment record: a method takes the object's state and returns its Go results
  together with the new state. A Go \<^verbatim>\<open>int\<close> is an \<^typ>\<open>int\<close> (all values here are
  buffer lengths and counts, far from the machine bounds), a \<^verbatim>\<open>[]byte\<close> is a list of
  8-bit words, an \<^verbatim>\<open>error\<close> is an \<^typ>\<open>'e option\<close> with \<^term>\<open>None\<close> for \<^verbatim>\<open>nil\<close>.
  A buffer is passed with \<^verbatim>\<open>cap(b) = len(b)\<close>; a method that fills a buffer returns the
  buffer's new contents next to its count.
\<close>

subsection \<open>Values\<close>

type_synonym byte = "8 word"
type_synonym bytes = "byte list"

datatype error = errUnsupport | EOF | OtherError string

abbreviation len :: "'a list \<Rightarrow> int" where
  "len xs \<equiv> int (length xs)"

text \<open>
  The outcome of a call: it returns its results and leaves the receiver in a new state,
  or it panics (a slice expression out of range).
\<close>

datatype ('r, 's) outcome = Panic | Return 'r 's

text \<open>Slice expressions \<^verbatim>\<open>b[:hi]\<close>, \<^verbatim>\<open>b[lo:]\<close> and \<^verbatim>\<open>b[lo:hi]\<close>; \<^term>\<open>None\<close> is the
  run-time panic "slice bounds out of range".\<close>

definition slice_to :: "'a list \<Rightarrow> int \<Rightarrow> 'a list option" where
  "slice_to b hi = (if 0 \<le> hi \<and> hi \<le> len b then Some (take (nat hi) b) else None)"

definition slice_from :: "'a list \<Rightarrow> int \<Rightarrow> 'a list option" where
  "slice_from b lo = (if 0 \<le> lo \<and> lo \<le> len b then Some (drop (nat lo) b) else None)"

definition slice :: "'a list \<Rightarrow> int \<Rightarrow> int \<Rightarrow> 'a list option" where
  "slice b lo hi =
     (if 0 \<le> lo \<and> lo \<le> hi \<and> hi \<le> len b
      then Some (take (nat hi - nat lo) (drop (nat lo) b)) else None)"

subsection \<open>bytes.Buffer\<close>

text \<open>
  The staging buffer \<^verbatim>\<open>rbuf\<close> is a \<^verbatim>\<open>bytes.Buffer\<close> of the standard library; its state
  is the list of unread bytes. \<^verbatim>\<open>Read(p)\<close> copies \<^verbatim>\<open>min(len(p), Len())\<close> bytes to the
  front of \<^verbatim>\<open>p\<close> (on an empty buffer it reports \<^verbatim>\<open>io.EOF\<close> unless \<^verbatim>\<open>p\<close> is empty);
  \<^verbatim>\<open>Write(p)\<close> appends and its error is always \<^verbatim>\<open>nil\<close>.
\<close>

definition Buffer_Len :: "bytes \<Rightarrow> int" where
  "Buffer_Len buf = len buf"

definition Buffer_Read :: "bytes \<Rightarrow> bytes \<Rightarrow> (int \<times> error option \<times> bytes) \<times> bytes" where
  "Buffer_Read buf p =
     (if buf = [] then ((0, if p = [] then None else Some EOF, p), [])
      else let n = min (length p) (length buf)
           in ((int n, None, take n buf @ drop n p), drop n buf))"

definition Buffer_Write :: "bytes \<Rightarrow> bytes \<Rightarrow> (int \<times> error option) \<times> bytes" where
  "Buffer_Write buf p = ((len p, None), buf @ p)"

subsection \<open>The limiter interfaces\<close>

text \<open>
  \<^verbatim>\<open>limiter.RateLimiter\<close>: \<^verbatim>\<open>In(key)\<close> and \<^verbatim>\<open>Out(key)\<close> resolve a host key to a limiter or
  \<^verbatim>\<open>nil\<close>. A limiter is a stateful object; the rate limiter holds the state of the
  limiter it resolves for each key, and a \<^verbatim>\<open>Wait\<close> on that limiter updates it there.
\<close>

record 'l RateLimiter =
  In :: "string \<Rightarrow> 'l option"
  Out :: "string \<Rightarrow> 'l option"

text \<open>\<^verbatim>\<open>c.rlimiter == nil || c.rlimiter.In(key) == nil\<close>, and the limiter otherwise.\<close>

definition limiter_In :: "'l RateLimiter option \<Rightarrow> string \<Rightarrow> 'l option" where
  "limiter_In r key = (case r of None \<Rightarrow> None | Some rl \<Rightarrow> In rl key)"

definition limiter_Out :: "'l RateLimiter option \<Rightarrow> string \<Rightarrow> 'l option" where
  "limiter_Out r key = (case r of None \<Rightarrow> None | Some rl \<Rightarrow> Out rl key)"

text \<open>The state a \<^verbatim>\<open>Wait\<close> leaves the resolved limiter in.\<close>

definition waited_In :: "'l RateLimiter option \<Rightarrow> string \<Rightarrow> 'l \<Rightarrow> 'l RateLimiter option" where
  "waited_In r key l = map_option (\<lambda>rl. rl\<lparr>In := (In rl)(key \<mapsto> l)\<rparr>) r"

definition waited_Out :: "'l RateLimiter option \<Rightarrow> string \<Rightarrow> 'l \<Rightarrow> 'l RateLimiter option" where
  "waited_Out r key l = map_option (\<lambda>rl. rl\<lparr>Out := (Out rl)(key \<mapsto> l)\<rparr>) r"

text \<open>\<^verbatim>\<open>limiter.Limiter\<close>: \<^verbatim>\<open>Wait(ctx, n)\<close> on a limiter in state \<^typ>\<open>'l\<close> returns the
  granted count and the limiter's new state. Every environment below extends it.\<close>

record 'l Limiter =
  Wait :: "'l \<Rightarrow> int \<Rightarrow> int \<times> 'l"

subsection \<open>The stream wrapper\<close>

text \<open>
  The environment of a stream wrapper: the limiters' \<^verbatim>\<open>Wait\<close>, and \<^verbatim>\<open>net.Conn\<close>'s
  \<^verbatim>\<open>Read\<close> and \<^verbatim>\<open>Write\<close> on a connection state \<^typ>\<open>'c\<close>. \<^verbatim>\<open>Read(b)\<close> returns
  \<^verbatim>\<open>(n, err)\<close> and the contents it left in \<^verbatim>\<open>b\<close>.
\<close>

record ('c, 'l) env = "'l Limiter" +
  conn_Read :: "'c \<Rightarrow> bytes \<Rightarrow> (int \<times> error option \<times> bytes) \<times> 'c"
  conn_Write :: "'c \<Rightarrow> bytes \<Rightarrow> (int \<times> error option) \<times> 'c"
  conn_RemoteHost :: "'c \<Rightarrow> string"

record ('c, 'l) serverConn =
  Conn :: 'c
  rbuf :: bytes
  raddr :: string
  rlimiter :: "'l RateLimiter option"



definition serverConn_Read ::
  "('c, 'l) env \<Rightarrow> ('c, 'l) serverConn \<Rightarrow> bytes
     \<Rightarrow> (int \<times> error option \<times> bytes, ('c, 'l) serverConn) outcome" where
  "serverConn_Read E c b =
     (case limiter_In (rlimiter c) (raddr c) of
        None \<Rightarrow>
          (let (r, k) = conn_Read E (Conn c) b in Return r (c\<lparr>Conn := k\<rparr>))
      | Some limiter \<Rightarrow>
          if Buffer_Len (rbuf c) > 0 then
            (let burst = (if Buffer_Len (rbuf c) < len b then Buffer_Len (rbuf c) else len b);
                 (lim, limiter') = Wait E limiter burst;
                 c = c\<lparr>rlimiter := waited_In (rlimiter c) (raddr c) limiter'\<rparr>
             in case slice_to b lim of
                  None \<Rightarrow> Panic
                | Some p \<Rightarrow>
                    (let ((n, err, p'), buf) = Buffer_Read (rbuf c) p
                     in Return (n, err, p' @ drop (length p) b) (c\<lparr>rbuf := buf\<rparr>)))
          else
            (let ((nn, err, b), k) = conn_Read E (Conn c) b;
                 c = c\<lparr>Conn := k\<rparr>
             in if err \<noteq> None then Return (nn, err, b) c
                else
                  (let (n, limiter') = Wait E limiter nn;
                       c = c\<lparr>rlimiter := waited_In (rlimiter c) (raddr c) limiter'\<rparr>
                   in if n < nn then
                        (case slice b n nn of
                           None \<Rightarrow> Panic
                         | Some p \<Rightarrow>
                             (let ((_, err), buf) = Buffer_Write (rbuf c) p;
                                  c = c\<lparr>rbuf := buf\<rparr>
                              in if err \<noteq> None then Return (0, err, b) c
                                 else Return (n, None, b) c))
                      else Return (n, None, b) c)))"

text \<open>The bytes a \<^verbatim>\<open>Read\<close> hands to its caller: \<^verbatim>\<open>b[:n]\<close>.\<close>

definition delivered :: "int \<times> error option \<times> bytes \<Rightarrow> bytes" where
  "delivered r = (case r of (n, err, b) \<Rightarrow> take (nat n) b)"

text \<open>
  The loop of \<^verbatim>\<open>serverConn.Write\<close>. It runs as long as the limiter and the connection
  make it run, so it takes fuel: \<^term>\<open>None\<close> is "not returned within this many
  iterations". Its state is the limiter, the connection, what is left of \<^verbatim>\<open>b\<close>, and
  the count \<^verbatim>\<open>n\<close>.
\<close>

fun Write_loop ::
  "nat \<Rightarrow> ('c, 'l) env \<Rightarrow> 'l \<Rightarrow> 'c \<Rightarrow> bytes \<Rightarrow> int
     \<Rightarrow> (int \<times> error option, 'l \<times> 'c) outcome option" where
  "Write_loop 0 E limiter k b n = None"
| "Write_loop (Suc fuel) E limiter k b n =
     (if len b > 0 then
        (let (g, limiter) = Wait E limiter (len b)
         in case slice_to b g of
              None \<Rightarrow> Some Panic
            | Some p \<Rightarrow>
                (let ((nn, err), k) = conn_Write E k p;
                     n = n + nn
                 in if err \<noteq> None then Some (Return (n, err) (limiter, k))
                    else case slice_from b nn of
                           None \<Rightarrow> Some Panic
                         | Some b \<Rightarrow> Write_loop fuel E limiter k b n))
      else Some (Return (n, None) (limiter, k)))"

definition serverConn_Write ::
  "nat \<Rightarrow> ('c, 'l) env \<Rightarrow> ('c, 'l) serverConn \<Rightarrow> bytes
     \<Rightarrow> (int \<times> error option, ('c, 'l) serverConn) outcome option" where
  "serverConn_Write fuel E c b =
     (case limiter_Out (rlimiter c) (raddr c) of
        None \<Rightarrow>
          (let (r, k) = conn_Write E (Conn c) b in Some (Return r (c\<lparr>Conn := k\<rparr>)))
      | Some limiter \<Rightarrow>
          (case Write_loop fuel E limiter (Conn c) b 0 of
             None \<Rightarrow> None
           | Some Panic \<Rightarrow> Some Panic
           | Some (Return r (limiter', k)) \<Rightarrow>
               Some (Return r (c\<lparr>Conn := k,
                  rlimiter := waited_Out (rlimiter c) (raddr c) limiter'\<rparr>))))"

subsection \<open>The datagram wrapper\<close>

text \<open>
  The environment of a datagram wrapper, on a packet-connection state \<^typ>\<open>'p\<close>:
  \<^verbatim>\<open>net.PacketConn\<close>'s \<^verbatim>\<open>ReadFrom\<close> and \<^verbatim>\<open>WriteTo\<close>, and the optional interfaces the
  UDP wrapper probes for with a type assertion (\<^term>\<open>None\<close>: the connection's type does
  not implement the interface). An address (\<^verbatim>\<open>net.Addr\<close>, \<^verbatim>\<open>*net.UDPAddr\<close>) is an
  \<^typ>\<open>'a option\<close> with \<^term>\<open>None\<close> for \<^verbatim>\<open>nil\<close>. \<open>hostOf\<close> is the host of
  \<^verbatim>\<open>net.SplitHostPort(addr.String())\<close>, whose port and error the wrappers drop; the
  connection returns a non-nil address with a nil error and callers pass non-nil
  destinations.
\<close>

record 'p SetBuffer =
  SetReadBuffer :: "'p \<Rightarrow> int \<Rightarrow> error option \<times> 'p"
  SetWriteBuffer :: "'p \<Rightarrow> int \<Rightarrow> error option \<times> 'p"

record ('p, 'a) ReadUDP =
  ReadFromUDP :: "'p \<Rightarrow> bytes \<Rightarrow> (int \<times> 'a option \<times> error option \<times> bytes) \<times> 'p"
  ReadMsgUDP ::
    "'p \<Rightarrow> bytes \<Rightarrow> bytes
       \<Rightarrow> (int \<times> int \<times> int \<times> 'a option \<times> error option \<times> bytes \<times> bytes) \<times> 'p"

record ('p, 'a) WriteUDP =
  WriteToUDP :: "'p \<Rightarrow> bytes \<Rightarrow> 'a option \<Rightarrow> (int \<times> error option) \<times> 'p"
  WriteMsgUDP :: "'p \<Rightarrow> bytes \<Rightarrow> bytes \<Rightarrow> 'a option \<Rightarrow> (int \<times> int \<times> error option) \<times> 'p"

record ('p, 'l, 'a, 'r) penv = "'l Limiter" +
  hostOf :: "'a option \<Rightarrow> string"
  ReadFrom :: "'p \<Rightarrow> bytes \<Rightarrow> (int \<times> 'a option \<times> error option \<times> bytes) \<times> 'p"
  WriteTo :: "'p \<Rightarrow> bytes \<Rightarrow> 'a option \<Rightarrow> (int \<times> error option) \<times> 'p"
  as_RemoteAddr :: "('p \<Rightarrow> 'a option) option"
  as_SetBuffer :: "'p SetBuffer option"
  as_Reader :: "('p \<Rightarrow> bytes \<Rightarrow> (int \<times> error option \<times> bytes) \<times> 'p) option"
  as_Writer :: "('p \<Rightarrow> bytes \<Rightarrow> (int \<times> error option) \<times> 'p) option"
  as_ReadUDP :: "('p, 'a) ReadUDP option"
  as_WriteUDP :: "('p, 'a) WriteUDP option"
  as_SyscallConn :: "('p \<Rightarrow> ('r option \<times> error option) \<times> 'p) option"
  as_SetDSCP :: "('p \<Rightarrow> int \<Rightarrow> error option \<times> 'p) option"

record ('p, 'l) packetConn =
  PacketConn :: 'p
  rlimiter_p :: "'l RateLimiter option"




text \<open>
  \<^verbatim>\<open>packetConn.WriteTo\<close>. \<open>discard\<close> is the outcome of the guarded block: a rate limiter
  is set, it resolves an egress limiter for the destination's host, and that limiter,
  asked for \<^verbatim>\<open>len(p)\<close>, grants less.
\<close>

definition packetConn_WriteTo ::
  "('p, 'l, 'a, 'r) penv \<Rightarrow> ('p, 'l) packetConn \<Rightarrow> bytes \<Rightarrow> 'a option
     \<Rightarrow> (int \<times> error option) \<times> ('p, 'l) packetConn" where
  "packetConn_WriteTo E c p addr =
     (let host = hostOf E addr;
          (discard, c) =
            (case limiter_Out (rlimiter_p c) host of
               None \<Rightarrow> (False, c)
             | Some limiter \<Rightarrow>
                 (let (g, limiter') = Wait E limiter (len p)
                  in (g < len p, c\<lparr>rlimiter_p := waited_Out (rlimiter_p c) host limiter'\<rparr>)))
      in if discard then ((len p, None), c)
         else (let (r, k) = WriteTo E (PacketConn c) p addr in (r, c\<lparr>PacketConn := k\<rparr>)))"

subsection \<open>The UDP wrapper\<close>

record ('p, 'l) udpConn =
  PacketConn_u :: 'p
  rlimiter_u :: "'l RateLimiter option"


definition udpConn_RemoteAddr :: "('p, 'l, 'a, 'r) penv \<Rightarrow> ('p, 'l) udpConn \<Rightarrow> 'a option" where
  "udpConn_RemoteAddr E c =
     (case as_RemoteAddr E of
        Some nc \<Rightarrow> nc (PacketConn_u c)
      | None \<Rightarrow> None)"

definition udpConn_SetReadBuffer ::
  "('p, 'l, 'a, 'r) penv \<Rightarrow> ('p, 'l) udpConn \<Rightarrow> int \<Rightarrow> error option \<times> ('p, 'l) udpConn" where
  "udpConn_SetReadBuffer E c n =
     (case as_SetBuffer E of
        Some nc \<Rightarrow> (let (err, k) = SetReadBuffer nc (PacketConn_u c) n in (err, c\<lparr>PacketConn_u := k\<rparr>))
      | None \<Rightarrow> (Some errUnsupport, c))"

definition udpConn_SetWriteBuffer ::
  "('p, 'l, 'a, 'r) penv \<Rightarrow> ('p, 'l) udpConn \<Rightarrow> int \<Rightarrow> error option \<times> ('p, 'l) udpConn" where
  "udpConn_SetWriteBuffer E c n =
     (case as_SetBuffer E of
        Some nc \<Rightarrow> (let (err, k) = SetWriteBuffer nc (PacketConn_u c) n in (err, c\<lparr>PacketConn_u := k\<rparr>))
      | None \<Rightarrow> (Some errUnsupport, c))"

definition udpConn_Read ::
  "('p, 'l, 'a, 'r) penv \<Rightarrow> ('p, 'l) udpConn \<Rightarrow> bytes
     \<Rightarrow> (int \<times> error option \<times> bytes) \<times> ('p, 'l) udpConn" where
  "udpConn_Read E c b =
     (case as_Reader E of
        Some nc \<Rightarrow> (let (r, k) = nc (PacketConn_u c) b in (r, c\<lparr>PacketConn_u := k\<rparr>))
      | None \<Rightarrow> ((0, Some errUnsupport, b), c))"


text \<open>The loops of \<^verbatim>\<open>ReadFromUDP\<close> and \<^verbatim>\<open>ReadMsgUDP\<close>, entered once the type assertion
  to \<^verbatim>\<open>udp.ReadUDP\<close> has given \<open>nc\<close>.\<close>

fun ReadFromUDP_loop ::
  "nat \<Rightarrow> ('p, 'l, 'a, 'r) penv \<Rightarrow> ('p, 'a) ReadUDP \<Rightarrow> ('p, 'l) udpConn \<Rightarrow> bytes
     \<Rightarrow> ((int \<times> 'a option \<times> error option \<times> bytes) \<times> ('p, 'l) udpConn) option" where
  "ReadFromUDP_loop 0 E nc c b = None"
| "ReadFromUDP_loop (Suc fuel) E nc c b =
     (let ((n, addr, err, b), k) = ReadFromUDP nc (PacketConn_u c) b;
          c = c\<lparr>PacketConn_u := k\<rparr>
      in if err \<noteq> None then Some ((n, addr, err, b), c)
         else
           (let host = hostOf E addr
            in case limiter_In (rlimiter_u c) host of
                 None \<Rightarrow> Some ((n, addr, err, b), c)
               | Some limiter \<Rightarrow>
                   (let (g, limiter') = Wait E limiter n;
                        c = c\<lparr>rlimiter_u := waited_In (rlimiter_u c) host limiter'\<rparr>
                    in if g < n then ReadFromUDP_loop fuel E nc c b
                       else Some ((n, addr, err, b), c))))"

definition udpConn_ReadFromUDP ::
  "nat \<Rightarrow> ('p, 'l, 'a, 'r) penv \<Rightarrow> ('p, 'l) udpConn \<Rightarrow> bytes
     \<Rightarrow> ((int \<times> 'a option \<times> error option \<times> bytes) \<times> ('p, 'l) udpConn) option" where
  "udpConn_ReadFromUDP fuel E c b =
     (case as_ReadUDP E of
        Some nc \<Rightarrow> ReadFromUDP_loop fuel E nc c b
      | None \<Rightarrow> Some ((0, None, Some errUnsupport, b), c))"

fun ReadMsgUDP_loop ::
  "nat \<Rightarrow> ('p, 'l, 'a, 'r) penv \<Rightarrow> ('p, 'a) ReadUDP \<Rightarrow> ('p, 'l) udpConn \<Rightarrow> bytes \<Rightarrow> bytes
     \<Rightarrow> ((int \<times> int \<times> int \<times> 'a option \<times> error option \<times> bytes \<times> bytes) \<times> ('p, 'l) udpConn)
          option" where
  "ReadMsgUDP_loop 0 E nc c b oob = None"
| "ReadMsgUDP_loop (Suc fuel) E nc c b oob =
     (let ((n, oobn, flags, addr, err, b, oob), k) = ReadMsgUDP nc (PacketConn_u c) b oob;
          c = c\<lparr>PacketConn_u := k\<rparr>
      in if err \<noteq> None then Some ((n, oobn, flags, addr, err, b, oob), c)
         else
           (let host = hostOf E addr
            in case limiter_In (rlimiter_u c) host of
                 None \<Rightarrow> Some ((n, oobn, flags, addr, err, b, oob), c)
               | Some limiter \<Rightarrow>
                   (let (g, limiter') = Wait E limiter n;
                        c = c\<lparr>rlimiter_u := waited_In (rlimiter_u c) host limiter'\<rparr>
                    in if g < n then ReadMsgUDP_loop fuel E nc c b oob
                       else Some ((n, oobn, flags, addr, err, b, oob), c))))"

definition udpConn_ReadMsgUDP ::
  "nat \<Rightarrow> ('p, 'l, 'a, 'r) penv \<Rightarrow> ('p, 'l) udpConn \<Rightarrow> bytes \<Rightarrow> bytes
     \<Rightarrow> ((int \<times> int \<times> int \<times> 'a option \<times> error option \<times> bytes \<times> bytes) \<times> ('p, 'l) udpConn)
          option" where
  "udpConn_ReadMsgUDP fuel E c b oob =
     (case as_ReadUDP E of
        Some nc \<Rightarrow> ReadMsgUDP_loop fuel E nc c b oob
      | None \<Rightarrow> Some ((0, 0, 0, None, Some errUnsupport, b, oob), c))"

definition udpConn_Write ::
  "('p, 'l, 'a, 'r) penv \<Rightarrow> ('p, 'l) udpConn \<Rightarrow> bytes
     \<Rightarrow> (int \<times> error option) \<times> ('p, 'l) udpConn" where
  "udpConn_Write E c b =
     (case as_Writer E of
        Some nc \<Rightarrow> (let (r, k) = nc (PacketConn_u c) b in (r, c\<lparr>PacketConn_u := k\<rparr>))
      | None \<Rightarrow> ((0, Some errUnsupport), c))"

text \<open>The write methods start with the guarded block of \<^verbatim>\<open>packetConn.WriteTo\<close>; the two
  UDP-typed ones probe for \<^verbatim>\<open>udp.WriteUDP\<close> after it.\<close>

definition udpConn_WriteTo ::
  "('p, 'l, 'a, 'r) penv \<Rightarrow> ('p, 'l) udpConn \<Rightarrow> bytes \<Rightarrow> 'a option
     \<Rightarrow> (int \<times> error option) \<times> ('p, 'l) udpConn" where
  "udpConn_WriteTo E c p addr =
     (let host = hostOf E addr;
          (discard, c) =
            (case limiter_Out (rlimiter_u c) host of
               None \<Rightarrow> (False, c)
             | Some limiter \<Rightarrow>
                 (let (g, limiter') = Wait E limiter (len p)
                  in (g < len p, c\<lparr>rlimiter_u := waited_Out (rlimiter_u c) host limiter'\<rparr>)))
      in if discard then ((len p, None), c)
         else (let (r, k) = WriteTo E (PacketConn_u c) p addr in (r, c\<lparr>PacketConn_u := k\<rparr>)))"

definition udpConn_WriteToUDP ::
  "('p, 'l, 'a, 'r) penv \<Rightarrow> ('p, 'l) udpConn \<Rightarrow> bytes \<Rightarrow> 'a option
     \<Rightarrow> (int \<times> error option) \<times> ('p, 'l) udpConn" where
  "udpConn_WriteToUDP E c b addr =
     (let host = hostOf E addr;
          (discard, c) =
            (case limiter_Out (rlimiter_u c) host of
               None \<Rightarrow> (False, c)
             | Some limiter \<Rightarrow>
                 (let (g, limiter') = Wait E limiter (len b)
                  in (g < len b, c\<lparr>rlimiter_u := waited_Out (rlimiter_u c) host limiter'\<rparr>)))
      in if discard then ((len b, None), c)
         else
           (case as_WriteUDP E of
              Some nc \<Rightarrow>
                (let (r, k) = WriteToUDP nc (PacketConn_u c) b addr in (r, c\<lparr>PacketConn_u := k\<rparr>))
            | None \<Rightarrow> ((0, Some errUnsupport), c)))"

definition udpConn_WriteMsgUDP ::
  "('p, 'l, 'a, 'r) penv \<Rightarrow> ('p, 'l) udpConn \<Rightarrow> bytes \<Rightarrow> bytes \<Rightarrow> 'a option
     \<Rightarrow> (int \<times> int \<times> error option) \<times> ('p, 'l) udpConn" where
  "udpConn_WriteMsgUDP E c b oob addr =
     (let host = hostOf E addr;
          (discard, c) =
            (case limiter_Out (rlimiter_u c) host of
               None \<Rightarrow> (False, c)
             | Some limiter \<Rightarrow>
                 (let (g, limiter') = Wait E limiter (len b)
                  in (g < len b, c\<lparr>rlimiter_u := waited_Out (rlimiter_u c) host limiter'\<rparr>)))
      in if discard then ((len b, 0, None), c)
         else
           (case as_WriteUDP E of
              Some nc \<Rightarrow>
                (let (r, k) = WriteMsgUDP nc (PacketConn_u c) b oob addr
                 in (r, c\<lparr>PacketConn_u := k\<rparr>))
            | None \<Rightarrow> ((0, 0, Some errUnsupport), c)))"

definition udpConn_SyscallConn ::
  "('p, 'l, 'a, 'r) penv \<Rightarrow> ('p, 'l) udpConn
     \<Rightarrow> ('r option \<times> error option) \<times> ('p, 'l) udpConn" where
  "udpConn_SyscallConn E c =
     (case as_SyscallConn E of
        Some nc \<Rightarrow> (let (r, k) = nc (PacketConn_u c) in (r, c\<lparr>PacketConn_u := k\<rparr>))
      | None \<Rightarrow> ((None, Some errUnsupport), c))"

definition udpConn_SetDSCP ::
  "('p, 'l, 'a, 'r) penv \<Rightarrow> ('p, 'l) udpConn \<Rightarrow> int \<Rightarrow> error option \<times> ('p, 'l) udpConn" where
  "udpConn_SetDSCP E c n =
     (case as_SetDSCP E of
        Some nc \<Rightarrow> (let (err, k) = nc (PacketConn_u c) n in (err, c\<lparr>PacketConn_u := k\<rparr>))
      | None \<Rightarrow> (None, c))"

subsection \<open>Observing the environment\<close>

text \<open>
  To speak about what a wrapper asks of its environment, an environment is run with a
  record of the calls made on it: a connection remembers the bytes each \<^verbatim>\<open>Read\<close>
  produced (\<^verbatim>\<open>b[:n]\<close>) and the argument and results of each \<^verbatim>\<open>Write\<close>, a limiter
  remembers the request and the grant of each \<^verbatim>\<open>Wait\<close>. The calls themselves are
  those of the environment observed.
\<close>

record 'c observed =
  inner :: 'c
  reads :: "bytes list"
  writes :: "(bytes \<times> int \<times> error option) list"

definition observe :: "('c, 'l) env \<Rightarrow> ('c observed, 'l \<times> (int \<times> int) list) env" where
  "observe E =
     \<lparr>Wait = (\<lambda>(l, gs) n. let (g, l') = Wait E l n in (g, (l', gs @ [(n, g)]))),
      conn_Read = (\<lambda>k b. let (r, k') = conn_Read E (inner k) b
                          in (r, k\<lparr>inner := k', reads := reads k @ [delivered r]\<rparr>)),
      conn_Write = (\<lambda>k p. let ((n, err), k') = conn_Write E (inner k) p
                           in ((n, err), k\<lparr>inner := k', writes := writes k @ [(p, n, err)]\<rparr>)),
      conn_RemoteHost = (\<lambda>k. conn_RemoteHost E (inner k))\<rparr>"

text \<open>
  Forgetting the record gives back a wrapper over the environment observed: the limiters
  without their grants, the connection without its reads and writes.
\<close>

definition forget_grants :: "('l \<times> (int \<times> int) list) RateLimiter \<Rightarrow> 'l RateLimiter" where
  "forget_grants rl =
     \<lparr>In = (\<lambda>key. map_option fst (In rl key)), Out = (\<lambda>key. map_option fst (Out rl key))\<rparr>"

definition unobserved ::
  "('c observed, 'l \<times> (int \<times> int) list) serverConn \<Rightarrow> ('c, 'l) serverConn" where
  "unobserved c =
     \<lparr>Conn = inner (Conn c), rbuf = rbuf c, raddr = raddr c,
      rlimiter = map_option forget_grants (rlimiter c)\<rparr>"

definition unobserved_outcome ::
  "('r, ('c observed, 'l \<times> (int \<times> int) list) serverConn) outcome
     \<Rightarrow> ('r, ('c, 'l) serverConn) outcome" where
  "unobserved_outcome x = (case x of Panic \<Rightarrow> Panic | Return r c \<Rightarrow> Return r (unobserved c))"

text \<open>A recorded \<^verbatim>\<open>Write\<close> that took all of its argument and reported no error.\<close>

definition accepted :: "bytes \<times> int \<times> error option \<Rightarrow> bool" where
  "accepted w = (case w of (p, n, err) \<Rightarrow> err = None \<and> n = len p)"



text \<open>The egress limiter of the destination's host exists and, asked for \<^verbatim>\<open>len(b)\<close>,
  grants less.\<close>

definition declines ::
  "('p, 'l, 'a, 'r) penv \<Rightarrow> 'l RateLimiter option \<Rightarrow> 'a option \<Rightarrow> bytes \<Rightarrow> bool" where
  "declines E rl addr b =
     (case limiter_Out rl (hostOf E addr) of
        None \<Rightarrow> False
      | Some l \<Rightarrow> fst (Wait E l (len b)) < len b)"

text \<open>Successive \<^verbatim>\<open>Read\<close> calls on one wrapper, one per caller buffer; the result is the
  list of the chunks the caller received.\<close>

fun Read_calls ::
  "('c, 'l) env \<Rightarrow> ('c, 'l) serverConn \<Rightarrow> bytes list
     \<Rightarrow> (bytes list, ('c, 'l) serverConn) outcome" where
  "Read_calls E c [] = Return [] c"
| "Read_calls E c (b # bs) =
     (case serverConn_Read E c b of
        Panic \<Rightarrow> Panic
      | Return r c' \<Rightarrow>
          (case Read_calls E c' bs of
             Panic \<Rightarrow> Panic
           | Return ds c'' \<Rightarrow> Return (delivered r # ds) c''))"

subsection \<open>Contracts of the environment\<close>

text \<open>\<^verbatim>\<open>Limiter.Wait\<close>: \<^verbatim>\<open>0 <= granted <= requested\<close>.\<close>

definition limiter_contract :: "('l, 'z) Limiter_scheme \<Rightarrow> bool" where
  "limiter_contract E = (\<forall>l n. 0 \<le> n \<longrightarrow> 0 \<le> fst (Wait E l n) \<and> fst (Wait E l n) \<le> n)"

text \<open>A limiter that, asked for at least one byte, grants at least one.\<close>

definition limiter_progress :: "('l, 'z) Limiter_scheme \<Rightarrow> bool" where
  "limiter_progress E = (\<forall>l n. 1 \<le> n \<longrightarrow> 1 \<le> fst (Wait E l n) \<and> fst (Wait E l n) \<le> n)"

text \<open>\<^verbatim>\<open>io.Reader\<close>: \<^verbatim>\<open>0 <= n <= len(p)\<close>, and the buffer keeps its length.\<close>

definition reader_contract :: "('c, 'l) env \<Rightarrow> bool" where
  "reader_contract E =
     (\<forall>k b. case conn_Read E k b of
        ((n, err, b'), k') \<Rightarrow> 0 \<le> n \<and> n \<le> len b \<and> length b' = length b)"

text \<open>\<^verbatim>\<open>io.Writer\<close>: \<^verbatim>\<open>0 <= n <= len(p)\<close>, and a non-nil error whenever \<^verbatim>\<open>n < len(p)\<close>.\<close>

definition writer_contract :: "('c, 'l) env \<Rightarrow> bool" where
  "writer_contract E =
     (\<forall>k p. case conn_Write E k p of
        ((n, err), k') \<Rightarrow> 0 \<le> n \<and> n \<le> len p \<and> (err = None \<longrightarrow> n = len p))"

subsection \<open>Concrete environments\<close>

text \<open>
  A connection over two byte queues: \<^verbatim>\<open>Read\<close> takes from \<open>inbound\<close> what fits the
  buffer and reports \<^verbatim>\<open>io.EOF\<close> on an empty queue; \<^verbatim>\<open>Write\<close> appends to \<open>outbound\<close>, or
  fails with nothing written when \<open>outbound\<close> would grow beyond \<open>room\<close> bytes.
\<close>

record pipe =
  inbound :: bytes
  outbound :: bytes
  room :: nat

definition pipe_Read :: "pipe \<Rightarrow> bytes \<Rightarrow> (int \<times> error option \<times> bytes) \<times> pipe" where
  "pipe_Read k b =
     (if inbound k = [] then ((0, Some EOF, b), k)
      else let n = min (length b) (length (inbound k))
           in ((int n, None, take n (inbound k) @ drop n b), k\<lparr>inbound := drop n (inbound k)\<rparr>))"

text \<open>A reader that reports \<^verbatim>\<open>io.EOF\<close> together with the last bytes, as \<^verbatim>\<open>io.Reader\<close>
  allows.\<close>

definition pipe_Read_eof :: "pipe \<Rightarrow> bytes \<Rightarrow> (int \<times> error option \<times> bytes) \<times> pipe" where
  "pipe_Read_eof k b =
     (let n = min (length b) (length (inbound k))
      in ((int n, if drop n (inbound k) = [] then Some EOF else None,
           take n (inbound k) @ drop n b), k\<lparr>inbound := drop n (inbound k)\<rparr>))"

definition pipe_Write :: "pipe \<Rightarrow> bytes \<Rightarrow> (int \<times> error option) \<times> pipe" where
  "pipe_Write k p =
     (if length (outbound k) + length p \<le> room k
      then ((len p, None), k\<lparr>outbound := outbound k @ p\<rparr>)
      else ((0, Some (OtherError ''broken pipe'')), k))"

text \<open>A limiter that grants at most \<open>g\<close> bytes a call; its state counts the calls.\<close>

definition pipe_env :: "int \<Rightarrow> (pipe, nat) env" where
  "pipe_env g =
     \<lparr>Wait = (\<lambda>l n. (min g n, Suc l)),
      conn_Read = pipe_Read, conn_Write = pipe_Write,
      conn_RemoteHost = (\<lambda>k. ''10.0.0.1'')\<rparr>"

definition pipe_env_eof :: "int \<Rightarrow> (pipe, nat) env" where
  "pipe_env_eof g = (pipe_env g)\<lparr>conn_Read := pipe_Read_eof\<rparr>"

definition every_host :: "nat RateLimiter" where
  "every_host = \<lparr>In = (\<lambda>key. Some 0), Out = (\<lambda>key. Some 0)\<rparr>"


definition every_host_observed :: "(nat \<times> (int \<times> int) list) RateLimiter" where
  "every_host_observed = \<lparr>In = (\<lambda>key. Some (0, [])), Out = (\<lambda>key. Some (0, []))\<rparr>"

text \<open>A pipe whose peer has sent \<open>bs\<close>, with room for a hundred bytes the other way; the
  same pipe observed; and a wrapper of host \<open>10.0.0.1\<close> around a connection, with \<open>staged\<close>
  in its staging buffer.\<close>

definition peer_sent :: "bytes \<Rightarrow> pipe" where
  "peer_sent bs = \<lparr>inbound = bs, outbound = [], room = 100\<rparr>"

definition watched :: "'c \<Rightarrow> 'c observed" where
  "watched k = \<lparr>inner = k, reads = [], writes = []\<rparr>"

definition wrapped :: "'l RateLimiter \<Rightarrow> 'c \<Rightarrow> bytes \<Rightarrow> ('c, 'l) serverConn" where
  "wrapped rl k staged = \<lparr>Conn = k, rbuf = staged, raddr = ''10.0.0.1'', rlimiter = Some rl\<rparr>"

text \<open>
  A packet connection over a queue of datagrams (payload and source address, an address
  being a host and a port): \<^verbatim>\<open>ReadFrom\<close> takes the next datagram, cut to the buffer,
  and reports \<^verbatim>\<open>io.EOF\<close> on an empty queue; \<^verbatim>\<open>WriteTo\<close> records what it sends. Its type
  implements none of the optional interfaces. A limiter's state is the number of bytes it
  grants a call.
\<close>

record dgram =
  arriving :: "(bytes \<times> string \<times> nat) list"
  sent :: "(bytes \<times> (string \<times> nat) option) list"

definition dgram_ReadFrom ::
  "dgram \<Rightarrow> bytes \<Rightarrow> (int \<times> (string \<times> nat) option \<times> error option \<times> bytes) \<times> dgram" where
  "dgram_ReadFrom k p =
     (case arriving k of
        [] \<Rightarrow> ((0, None, Some EOF, p), k)
      | (d, a) # ds \<Rightarrow>
          (let n = min (length p) (length d)
           in ((int n, Some a, None, take n d @ drop n p), k\<lparr>arriving := ds\<rparr>)))"

definition dgram_WriteTo ::
  "dgram \<Rightarrow> bytes \<Rightarrow> (string \<times> nat) option \<Rightarrow> (int \<times> error option) \<times> dgram" where
  "dgram_WriteTo k p a = ((len p, None), k\<lparr>sent := sent k @ [(p, a)]\<rparr>)"

definition dgram_env :: "(dgram, nat, string \<times> nat, unit) penv" where
  "dgram_env =
     \<lparr>Wait = (\<lambda>l n. (min (int l) n, l)),
      hostOf = (\<lambda>a. case a of None \<Rightarrow> [] | Some (h, port) \<Rightarrow> h),
      ReadFrom = dgram_ReadFrom, WriteTo = dgram_WriteTo,
      as_RemoteAddr = None, as_SetBuffer = None, as_Reader = None, as_Writer = None,
      as_ReadUDP = None, as_WriteUDP = None, as_SyscallConn = None, as_SetDSCP = None\<rparr>"

text \<open>The same connection with a type that implements \<^verbatim>\<open>udp.ReadUDP\<close> and
  \<^verbatim>\<open>udp.WriteUDP\<close>.\<close>

definition dgram_env_udp :: "(dgram, nat, string \<times> nat, unit) penv" where
  "dgram_env_udp =
     dgram_env
       \<lparr>as_ReadUDP := Some
          \<lparr>ReadFromUDP = dgram_ReadFrom,
           ReadMsgUDP = (\<lambda>k b oob. case dgram_ReadFrom k b of
                          ((n, a, err, b'), k') \<Rightarrow> ((n, 0, 0, a, err, b', oob), k'))\<rparr>,
        as_WriteUDP := Some
          \<lparr>WriteToUDP = dgram_WriteTo,
           WriteMsgUDP = (\<lambda>k b oob a. case dgram_WriteTo k b a of
                           ((n, err), k') \<Rightarrow> ((n, 0, err), k'))\<rparr>\<rparr>"

text \<open>Host \<open>10.0.0.1\<close> is granted nothing, every other host a thousand bytes a call.\<close>

definition throttle_one :: "nat RateLimiter" where
  "throttle_one =
     \<lparr>In = (\<lambda>key. if key = ''10.0.0.1'' then Some 0 else Some 1000),
      Out = (\<lambda>key. if key = ''10.0.0.1'' then Some 0 else Some 1000)\<rparr>"

text \<open>A hundred bytes from \<open>10.0.0.1\<close> are followed by fifty from \<open>10.0.0.2\<close>.\<close>

definition two_datagrams :: dgram where
  "two_datagrams =
     \<lparr>arriving = [(replicate 100 1, ''10.0.0.1'', 4000), (replicate 50 2, ''10.0.0.2'', 4000)],
      sent = []\<rparr>"

section \<open>The stream wrapper: reading\<close>

subsection \<open>Facts about the environment\<close>

lemma observe_Wait [simp]:
  "Wait (observe E) (l, gs) n =
     (fst (Wait E l n), (snd (Wait E l n), gs @ [(n, fst (Wait E l n))]))"
  by (simp add: observe_def split: prod.splits)

lemma observe_conn_Write [simp]:
  "conn_Write (observe E) k p =
     (fst (conn_Write E (inner k) p),
      k\<lparr>inner := snd (conn_Write E (inner k) p),
        writes := writes k @ [(p, fst (conn_Write E (inner k) p))]\<rparr>)"
  by (simp add: observe_def split: prod.splits)

lemma observe_conn_Read [simp]:
  "conn_Read (observe E) k b =
     (fst (conn_Read E (inner k) b),
      k\<lparr>inner := snd (conn_Read E (inner k) b),
        reads := reads k @ [delivered (fst (conn_Read E (inner k) b))]\<rparr>)"
  by (simp add: observe_def split: prod.splits)

lemma limiter_In_waited [simp]:
  "limiter_In r key = Some l \<Longrightarrow> limiter_In (waited_In r key l') key = Some l'"
  by (cases r) (simp_all add: limiter_In_def waited_In_def)

lemma limiter_Out_waited [simp]:
  "limiter_Out r key = Some l \<Longrightarrow> limiter_Out (waited_Out r key l') key = Some l'"
  by (cases r) (simp_all add: limiter_Out_def waited_Out_def)

lemma limiter_contractD:
  assumes "limiter_contract E" "0 \<le> n" "Wait E l n = (g, l')"
  shows "0 \<le> g" "g \<le> n"
  using assms unfolding limiter_contract_def by (metis fst_conv)+

lemma limiter_progressD:
  assumes "limiter_progress E" "1 \<le> n" "Wait E l n = (g, l')"
  shows "1 \<le> g" "g \<le> n"
  using assms unfolding limiter_progress_def by (metis fst_conv)+

lemma reader_contractD:
  assumes "reader_contract E" "conn_Read E k b = ((n, err, b'), k')"
  shows "0 \<le> n" "n \<le> len b" "length b' = length b"
  using assms unfolding reader_contract_def
  by (metis (mono_tags, lifting) case_prod_conv)+

lemma writer_contractD:
  assumes "writer_contract E" "conn_Write E k p = ((n, err), k')"
  shows "0 \<le> n" "n \<le> len p" "err = None \<Longrightarrow> n = len p"
  using assms unfolding writer_contract_def
  by (metis (mono_tags, lifting) case_prod_conv)+

lemma limiter_progress_observe:
  "limiter_progress E \<Longrightarrow> limiter_progress (observe E)"
  by (simp add: limiter_progress_def split_paired_all)

lemma writer_contract_observe:
  fixes E :: "('a, 'l) env"
  assumes "writer_contract E"
  shows "writer_contract (observe E)"
  unfolding writer_contract_def
proof (intro allI)
  fix k :: "'a observed" and p
  obtain n err k' where cw: "conn_Write E (inner k) p = ((n, err), k')"
    by (cases "conn_Write E (inner k) p") auto
  from writer_contractD [OF assms cw]
  show "case conn_Write (observe E) k p of
          ((n, err), k') \<Rightarrow> 0 \<le> n \<and> n \<le> len p \<and> (err = None \<longrightarrow> n = len p)"
    by (simp add: cw)
qed

lemma limiter_contract_pipe_env: "0 \<le> g \<Longrightarrow> limiter_contract (pipe_env g)"
  by (simp add: limiter_contract_def pipe_env_def)

lemma limiter_progress_pipe_env: "1 \<le> g \<Longrightarrow> limiter_progress (pipe_env g)"
  by (simp add: limiter_progress_def pipe_env_def)

lemma reader_contract_pipe_env: "reader_contract (pipe_env g)"
  by (simp add: reader_contract_def pipe_env_def pipe_Read_def Let_def)

lemma writer_contract_pipe_env: "writer_contract (pipe_env g)"
  by (simp add: writer_contract_def pipe_env_def pipe_Write_def)

subsection \<open>Observation changes nothing\<close>

text \<open>
  A wrapper run on an observed environment returns what the wrapper without the record
  returns on the environment itself, and ends in the same state, record apart.
\<close>

lemma limiter_In_forget:
  "limiter_In (map_option forget_grants r) key = map_option fst (limiter_In r key)"
  by (cases r) (simp_all add: limiter_In_def forget_grants_def)

lemma limiter_Out_forget:
  "limiter_Out (map_option forget_grants r) key = map_option fst (limiter_Out r key)"
  by (cases r) (simp_all add: limiter_Out_def forget_grants_def)

lemma waited_In_forget:
  "waited_In (map_option forget_grants r) key l
     = map_option forget_grants (waited_In r key (l, gs))"
  by (cases r) (auto simp: waited_In_def forget_grants_def)

lemma waited_Out_forget:
  "waited_Out (map_option forget_grants r) key l
     = map_option forget_grants (waited_Out r key (l, gs))"
  by (cases r) (auto simp: waited_Out_def forget_grants_def)

lemma serverConn_Read_unobserved:
  "serverConn_Read E (unobserved c) b = unobserved_outcome (serverConn_Read (observe E) c b)"
proof (cases "limiter_In (rlimiter c) (raddr c)")
  case None
  then show ?thesis
    by (simp add: serverConn_Read_def unobserved_def unobserved_outcome_def limiter_In_forget
        split: prod.splits)
next
  case (Some lg)
  obtain l gs where lg: "lg = (l, gs)" by (cases lg)
  show ?thesis
    using Some lg
    by (simp add: serverConn_Read_def unobserved_def unobserved_outcome_def limiter_In_forget
        waited_In_forget [where gs = "gs @ [x]" for x] Let_def Buffer_Write_def
        split: prod.splits option.splits)
qed

lemma Read_calls_unobserved:
  "Read_calls E (unobserved c) bs = unobserved_outcome (Read_calls (observe E) c bs)"
proof (induction bs arbitrary: c)
  case Nil
  then show ?case by (simp add: unobserved_outcome_def)
next
  case (Cons b bs)
  show ?case
  proof (cases "serverConn_Read (observe E) c b")
    case Panic
    then show ?thesis
      using serverConn_Read_unobserved [of E c b] by (simp add: unobserved_outcome_def)
  next
    case (Return r c1)
    then have "serverConn_Read E (unobserved c) b = Return r (unobserved c1)"
      using serverConn_Read_unobserved [of E c b] by (simp add: unobserved_outcome_def)
    then show ?thesis
      using Return Cons.IH [of c1]
      by (simp add: unobserved_outcome_def split: outcome.splits)
  qed
qed

lemma Write_loop_unobserved:
  "Write_loop fuel E l (inner k) b n
     = map_option (\<lambda>x. case x of Panic \<Rightarrow> Panic
                       | Return r s \<Rightarrow> Return r (fst (fst s), inner (snd s)))
         (Write_loop fuel (observe E) (l, gs) k b n)"
proof (induction fuel arbitrary: l gs k b n)
  case 0
  then show ?case by simp
next
  case (Suc fuel)
  let ?f = "\<lambda>x. case x of Panic \<Rightarrow> Panic
      | Return r s \<Rightarrow> Return r (fst (fst s), inner (snd s))"
  show ?case
  proof (cases "b = []")
    case True
    then show ?thesis by simp
  next
    case False
    obtain g l1 where wt: "Wait E l (len b) = (g, l1)" by (cases "Wait E l (len b)")
    show ?thesis
    proof (cases "slice_to b g")
      case None
      then show ?thesis using False wt by simp
    next
      case (Some p)
      obtain nn e ki where cw: "conn_Write E (inner k) p = ((nn, e), ki)"
        by (cases "conn_Write E (inner k) p") auto
      show ?thesis
      proof (cases "e = None")
        case err: False
        then show ?thesis using False wt Some cw by auto
      next
        case ok: True
        show ?thesis
        proof (cases "slice_from b nn")
          case None
          then show ?thesis using False wt Some cw ok by simp
        next
          case rest: (Some b')
          let ?k1 = "k\<lparr>inner := ki, writes := writes k @ [(p, nn, e)]\<rparr>"
          have "Write_loop fuel E l1 (inner ?k1) b' (n + nn)
              = map_option ?f
                  (Write_loop fuel (observe E) (l1, gs @ [(len b, g)]) ?k1 b' (n + nn))"
            by (rule Suc.IH)
          then show ?thesis using False wt Some cw ok rest by simp
        qed
      qed
    qed
  qed
qed

lemma serverConn_Write_unobserved:
  "serverConn_Write fuel E (unobserved c) b
     = map_option unobserved_outcome (serverConn_Write fuel (observe E) c b)"
proof (cases "limiter_Out (rlimiter c) (raddr c)")
  case None
  then show ?thesis
    by (simp add: serverConn_Write_def unobserved_def unobserved_outcome_def limiter_Out_forget
        split: prod.splits)
next
  case (Some lg)
  obtain l gs where lg: "lg = (l, gs)" by (cases lg)
  have L: "limiter_Out (rlimiter (unobserved c)) (raddr (unobserved c)) = Some l"
    using Some lg by (simp add: unobserved_def limiter_Out_forget)
  have C: "Conn (unobserved c) = inner (Conn c)" by (simp add: unobserved_def)
  show ?thesis
    unfolding serverConn_Write_def L Some lg C option.case prod.case
      Write_loop_unobserved [of fuel E l "Conn c" b 0 gs]
    by (cases "Write_loop fuel (observe E) (l, gs) (Conn c) b 0")
      (auto simp: unobserved_def unobserved_outcome_def waited_Out_forget
        split: outcome.splits)
qed

subsection \<open>One call\<close>

text \<open>The staged path, when the limiter grants no more than the burst it is asked for.\<close>

lemma staged_step:
  assumes L: "limiter_In (rlimiter c) (raddr c) = Some l" and ne: "rbuf c \<noteq> []"
    and W: "Wait E l (min (len b) (Buffer_Len (rbuf c))) = (g, l')"
    and g0: "0 \<le> g" and g1: "g \<le> min (len b) (Buffer_Len (rbuf c))"
  shows "serverConn_Read E c b
     = Return (g, None, take (nat g) (rbuf c) @ drop (nat g) b)
         (c\<lparr>rbuf := drop (nat g) (rbuf c),
            rlimiter := waited_In (rlimiter c) (raddr c) l'\<rparr>)"
proof -
  have burst: "(if Buffer_Len (rbuf c) < len b then Buffer_Len (rbuf c) else len b)
      = min (len b) (Buffer_Len (rbuf c))"
    by (simp add: min_def)
  have pos: "Buffer_Len (rbuf c) > 0" using ne by (simp add: Buffer_Len_def)
  have sl: "slice_to b g = Some (take (nat g) b)" using g0 g1 by (simp add: slice_to_def)
  have gb: "nat g \<le> length b" "nat g \<le> length (rbuf c)"
    using g0 g1 by (simp_all add: Buffer_Len_def nat_le_iff)
  have rd: "Buffer_Read (rbuf c) (take (nat g) b)
      = ((g, None, take (nat g) (rbuf c)), drop (nat g) (rbuf c))"
    using ne gb g0 by (simp add: Buffer_Read_def Let_def min_absorb1 min_absorb2)
  show ?thesis
    unfolding serverConn_Read_def
    using gb by (simp add: L pos burst W sl rd min_absorb2)
qed

text \<open>
  With a limiter that keeps its contract and a reader that keeps \<^verbatim>\<open>io.Reader\<close>'s, a
  \<^verbatim>\<open>Read\<close> returns, and what it delivers followed by what it leaves staged is what was
  staged before followed by what the connection produced during the call.
\<close>

lemma Read_step_observed:
  assumes LC: "limiter_contract E" and RC: "reader_contract E"
    and L: "limiter_In (rlimiter c) (raddr c) = Some lg"
  shows "\<exists>r c'. serverConn_Read (observe E) c b = Return r c'
           \<and> (\<exists>new. reads (Conn c') = reads (Conn c) @ new
                  \<and> delivered r @ rbuf c' = rbuf c @ concat new)
           \<and> raddr c' = raddr c
           \<and> limiter_In (rlimiter c') (raddr c') \<noteq> None"
proof -
  obtain l gs where lg: "lg = (l, gs)" by (cases lg)
  show ?thesis
  proof (cases "rbuf c = []")
    case False
    let ?burst = "min (len b) (Buffer_Len (rbuf c))"
    obtain g l' where wt: "Wait E l ?burst = (g, l')" by (cases "Wait E l ?burst")
    have "0 \<le> ?burst" by (simp add: Buffer_Len_def)
    from limiter_contractD [OF LC this wt] have g: "0 \<le> g" "g \<le> ?burst" .
    have burst: "(if Buffer_Len (rbuf c) < len b then Buffer_Len (rbuf c) else len b) = ?burst"
      by (simp add: min_def)
    have pos: "Buffer_Len (rbuf c) > 0" using False by (simp add: Buffer_Len_def)
    have sl: "slice_to b g = Some (take (nat g) b)" using g by (simp add: slice_to_def)
    have gb: "nat g \<le> length b" "nat g \<le> length (rbuf c)"
      using g by (simp_all add: Buffer_Len_def nat_le_iff)
    have rd: "Buffer_Read (rbuf c) (take (nat g) b)
        = ((g, None, take (nat g) (rbuf c)), drop (nat g) (rbuf c))"
      using False gb g by (simp add: Buffer_Read_def Let_def min_absorb1 min_absorb2)
    have "serverConn_Read (observe E) c b
       = Return (g, None, take (nat g) (rbuf c) @ drop (nat g) b)
           (c\<lparr>rlimiter := waited_In (rlimiter c) (raddr c) (l', gs @ [(?burst, g)]),
              rbuf := drop (nat g) (rbuf c)\<rparr>)"
      unfolding serverConn_Read_def
      using gb by (simp add: L lg pos burst wt sl rd min_absorb2)
    then show ?thesis
      using gb L by (simp add: delivered_def)
  next
    case True
    obtain nn err b' ki where cr: "conn_Read E (inner (Conn c)) b = ((nn, err, b'), ki)"
      by (cases "conn_Read E (inner (Conn c)) b") auto
    from reader_contractD [OF RC cr] have nn: "0 \<le> nn" "nn \<le> len b" "length b' = length b" .
    let ?k = "(Conn c)\<lparr>inner := ki, reads := reads (Conn c) @ [take (nat nn) b']\<rparr>"
    have emp: "Buffer_Len (rbuf c) = 0" using True by (simp add: Buffer_Len_def)
    show ?thesis
    proof (cases err)
      case (Some e)
      have "serverConn_Read (observe E) c b = Return (nn, err, b') (c\<lparr>Conn := ?k\<rparr>)"
        unfolding serverConn_Read_def by (simp add: L emp cr Some delivered_def)
      then show ?thesis using True L by (simp add: delivered_def)
    next
      case None
      obtain n l' where wt: "Wait E l nn = (n, l')" by (cases "Wait E l nn")
      from limiter_contractD [OF LC nn(1) wt] have n: "0 \<le> n" "n \<le> nn" .
      let ?c1 = "c\<lparr>Conn := ?k,
        rlimiter := waited_In (rlimiter c) (raddr c) (l', gs @ [(nn, n)])\<rparr>"
      show ?thesis
      proof (cases "n < nn")
        case False
        then have eq: "n = nn" using n by simp
        have "serverConn_Read (observe E) c b = Return (n, None, b') ?c1"
          unfolding serverConn_Read_def by (simp add: L lg emp cr None delivered_def wt False)
        then show ?thesis using True L eq by (simp add: delivered_def)
      next
        case lt: True
        have sl: "slice b' n nn = Some (take (nat nn - nat n) (drop (nat n) b'))"
          using n nn by (simp add: slice_def)
        have "serverConn_Read (observe E) c b
            = Return (n, None, b') (?c1\<lparr>rbuf := take (nat nn - nat n) (drop (nat n) b')\<rparr>)"
          unfolding serverConn_Read_def
          by (simp add: L lg emp cr None delivered_def wt lt sl Buffer_Write_def)
            (simp add: True)
        moreover have "take (nat n) b' @ take (nat nn - nat n) (drop (nat n) b') = take (nat nn) b'"
          using n by (metis take_add le_add_diff_inverse nat_mono)
        ultimately show ?thesis using True L by (simp add: delivered_def)
      qed
    qed
  qed
qed

subsection \<open>Successive calls\<close>

lemma Read_calls_observed:
  assumes LC: "limiter_contract E" and RC: "reader_contract E"
    and L: "limiter_In (rlimiter c) (raddr c) \<noteq> None"
  shows "\<exists>ds c' new. Read_calls (observe E) c bs = Return ds c'
           \<and> reads (Conn c') = reads (Conn c) @ new
           \<and> concat ds @ rbuf c' = rbuf c @ concat new
           \<and> (rbuf c' = [] \<longrightarrow> concat ds = rbuf c @ concat new)"
  using L
proof (induction bs arbitrary: c)
  case Nil
  then show ?case by simp
next
  case (Cons b bs)
  from Cons.prems obtain lg where L: "limiter_In (rlimiter c) (raddr c) = Some lg" by auto
  from Read_step_observed [OF LC RC L, of b] obtain r c1 new1 where
    s: "serverConn_Read (observe E) c b = Return r c1"
    and n1: "reads (Conn c1) = reads (Conn c) @ new1" "delivered r @ rbuf c1 = rbuf c @ concat new1"
    and l1: "limiter_In (rlimiter c1) (raddr c1) \<noteq> None" by blast
  from Cons.IH [OF l1] obtain ds c2 new2 where
    r: "Read_calls (observe E) c1 bs = Return ds c2"
    and n2: "reads (Conn c2) = reads (Conn c1) @ new2" "concat ds @ rbuf c2 = rbuf c1 @ concat new2"
    by blast
  have "concat (delivered r # ds) @ rbuf c2 = rbuf c @ concat (new1 @ new2)"
    using n1(2) n2(2) by (metis append.assoc concat.simps(2) concat_append)
  then show ?case using s r n1(1) n2(1) by auto
qed

text \<open>
  Staged bytes leave: when the limiter grants at least one byte of every non-empty
  request, calls with a non-empty buffer, at most one per staged byte, deliver the staged
  bytes and nothing else, and the connection is not touched.
\<close>

lemma staged_bytes_drain:
  assumes P: "limiter_progress E" and b: "b \<noteq> []"
  shows "limiter_In (rlimiter c) (raddr c) \<noteq> None \<Longrightarrow>
     \<exists>k ds c'. k \<le> length (rbuf c) \<and> Read_calls E c (replicate k b) = Return ds c'
        \<and> rbuf c' = [] \<and> concat ds = rbuf c \<and> Conn c' = Conn c"
proof (induction "length (rbuf c)" arbitrary: c rule: less_induct)
  case less
  show ?case
  proof (cases "rbuf c = []")
    case True
    then show ?thesis by (intro exI [of _ 0]) simp
  next
    case False
    from less.prems obtain l where L: "limiter_In (rlimiter c) (raddr c) = Some l" by auto
    let ?burst = "min (len b) (Buffer_Len (rbuf c))"
    obtain g l' where wt: "Wait E l ?burst = (g, l')" by (cases "Wait E l ?burst")
    have "1 \<le> ?burst" using False b by (cases b; cases "rbuf c") (simp_all add: Buffer_Len_def)
    from limiter_progressD [OF P this wt] have g: "1 \<le> g" "g \<le> ?burst" .
    let ?c1 = "c\<lparr>rbuf := drop (nat g) (rbuf c),
      rlimiter := waited_In (rlimiter c) (raddr c) l'\<rparr>"
    have step: "serverConn_Read E c b
        = Return (g, None, take (nat g) (rbuf c) @ drop (nat g) b) ?c1"
      using g by (intro staged_step [OF L False wt]) simp_all
    have gl: "nat g \<le> length (rbuf c)" using g by (simp add: Buffer_Len_def nat_le_iff)
    have sm: "length (rbuf ?c1) < length (rbuf c)" using g False by (cases "rbuf c") auto
    have l1: "limiter_In (rlimiter ?c1) (raddr ?c1) \<noteq> None" using L by simp
    from less.hyps [OF sm l1] obtain k ds c' where
      k: "k \<le> length (rbuf ?c1)" and r: "Read_calls E ?c1 (replicate k b) = Return ds c'"
      and e: "rbuf c' = []" "concat ds = rbuf ?c1" "Conn c' = Conn ?c1"
      by blast
    have d: "delivered (g, None, take (nat g) (rbuf c) @ drop (nat g) b) = take (nat g) (rbuf c)"
      using gl by (simp add: delivered_def)
    have "Read_calls E c (replicate (Suc k) b) = Return (take (nat g) (rbuf c) # ds) c'"
      using step r d by simp
    moreover have "Suc k \<le> length (rbuf c)" using k sm by simp
    moreover have "concat (take (nat g) (rbuf c) # ds) = rbuf c" using e by simp
    ultimately show ?thesis using e by (intro exI [of _ "Suc k"]) auto
  qed
qed

text \<open>
  C1 (stream no-loss and ordering). A wrapper with an ingress limiter for its host is
  read through any number of calls with any caller buffers; the limiter keeps
  \<^verbatim>\<open>0 <= granted <= requested\<close> and the connection keeps \<^verbatim>\<open>io.Reader\<close>'s contract. Every
  call returns, and the chunks delivered, in order, followed by the bytes still staged
  are exactly the bytes staged at the start followed by the bytes the connection
  produced during the calls, in the order it produced them: nothing is dropped,
  duplicated or reordered, and staged bytes come before newer ones. Once nothing is
  staged, the chunks delivered are exactly those bytes. The same calls on the
  environment itself deliver the same chunks. And staged bytes are delivered: when the
  limiter grants at least one byte of every non-empty request, at most one call per
  staged byte, each with a non-empty buffer, delivers exactly the staged bytes and
  empties the staging buffer without a read of the connection.
\<close>

theorem stream_no_loss:
  assumes LC: "limiter_contract E" and RC: "reader_contract E"
    and L: "limiter_In (rlimiter c) (raddr c) \<noteq> None"
  shows "(\<exists>ds c' new. Read_calls (observe E) c bs = Return ds c'
           \<and> Read_calls E (unobserved c) bs = Return ds (unobserved c')
           \<and> reads (Conn c') = reads (Conn c) @ new
           \<and> concat ds @ rbuf c' = rbuf c @ concat new
           \<and> (rbuf c' = [] \<longrightarrow> concat ds = rbuf c @ concat new))
       \<and> (limiter_progress E \<longrightarrow>
            (\<forall>b. b \<noteq> [] \<longrightarrow>
               (\<exists>k ds c'. k \<le> length (rbuf c)
                  \<and> Read_calls (observe E) c (replicate k b) = Return ds c'
                  \<and> rbuf c' = [] \<and> concat ds = rbuf c \<and> Conn c' = Conn c)))"
proof (intro conjI impI allI)
  fix b :: bytes
  assume "limiter_progress E" and "b \<noteq> []"
  then show "\<exists>k ds c'. k \<le> length (rbuf c)
      \<and> Read_calls (observe E) c (replicate k b) = Return ds c'
      \<and> rbuf c' = [] \<and> concat ds = rbuf c \<and> Conn c' = Conn c"
    using L by (intro staged_bytes_drain limiter_progress_observe)
next
  from Read_calls_observed [OF LC RC L, of bs] obtain ds c' new where
    r: "Read_calls (observe E) c bs = Return ds c'"
    and n: "reads (Conn c') = reads (Conn c) @ new" "concat ds @ rbuf c' = rbuf c @ concat new"
    by blast
  from r have "Read_calls E (unobserved c) bs = Return ds (unobserved c')"
    by (simp add: Read_calls_unobserved unobserved_outcome_def)
  with r n show "\<exists>ds c' new. Read_calls (observe E) c bs = Return ds c'
      \<and> Read_calls E (unobserved c) bs = Return ds (unobserved c')
      \<and> reads (Conn c') = reads (Conn c) @ new
      \<and> concat ds @ rbuf c' = rbuf c @ concat new
      \<and> (rbuf c' = [] \<longrightarrow> concat ds = rbuf c @ concat new)"
    by auto
qed

text \<open>
  The limiter grants five bytes a call and the peer has sent twelve: three reads with a
  buffer of twelve deliver five, five and two bytes, and nothing stays staged.
\<close>

theorem stream_no_loss_witness:
  "limiter_contract (pipe_env 5) \<and> reader_contract (pipe_env 5)
   \<and> limiter_In (rlimiter (wrapped every_host_observed
          (watched (peer_sent [1, 2, 3, 4, 5, 6, 7, 8, 9, 10, 11, 12])) []))
        ''10.0.0.1'' \<noteq> None
   \<and> (\<exists>c'. Read_calls (observe (pipe_env 5))
          (wrapped every_host_observed
             (watched (peer_sent [1, 2, 3, 4, 5, 6, 7, 8, 9, 10, 11, 12])) [])
          [replicate 12 0, replicate 12 0, replicate 12 0]
        = Return [[1, 2, 3, 4, 5], [6, 7, 8, 9, 10], [11, 12]] c'
      \<and> reads (Conn c') = [[1, 2, 3, 4, 5, 6, 7, 8, 9, 10, 11, 12]]
      \<and> rbuf c' = [])
   \<and> limiter_progress (pipe_env 5)
   \<and> (\<exists>c'. Read_calls (observe (pipe_env 5))
          (wrapped every_host_observed (watched (peer_sent [13, 14])) [6, 7, 8, 9, 10, 11, 12])
          (replicate 2 [0, 0, 0, 0, 0, 0])
        = Return [[6, 7, 8, 9, 10], [11, 12]] c'
      \<and> rbuf c' = [] \<and> Conn c' = watched (peer_sent [13, 14]))"
proof -
  let ?c = "wrapped every_host_observed
    (watched (peer_sent [1, 2, 3, 4, 5, 6, 7, 8, 9, 10, 11, 12])) []"
  let ?bs = "[replicate 12 0, replicate 12 0, replicate 12 (0 :: byte)]"
  have h1: "limiter_contract (pipe_env 5)" by (simp add: limiter_contract_pipe_env)
  have h2: "reader_contract (pipe_env 5)" by (rule reader_contract_pipe_env)
  have h3: "limiter_In (rlimiter ?c) (raddr ?c) \<noteq> None"
    by (simp add: wrapped_def limiter_In_def every_host_observed_def)
  have run: "\<exists>c'. Read_calls (observe (pipe_env 5)) ?c ?bs
        = Return [[1, 2, 3, 4, 5], [6, 7, 8, 9, 10], [11, 12]] c'
      \<and> reads (Conn c') = [[1, 2, 3, 4, 5, 6, 7, 8, 9, 10, 11, 12]] \<and> rbuf c' = []"
    by (simp add: wrapped_def watched_def peer_sent_def every_host_observed_def
        serverConn_Read_def limiter_In_def waited_In_def pipe_env_def pipe_Read_def
        Buffer_Len_def Buffer_Read_def Buffer_Write_def slice_def slice_to_def
        delivered_def Let_def)
  have h4: "limiter_progress (pipe_env 5)" by (simp add: limiter_progress_pipe_env)
  have drain: "\<exists>c'. Read_calls (observe (pipe_env 5))
          (wrapped every_host_observed (watched (peer_sent [13, 14])) [6, 7, 8, 9, 10, 11, 12])
          (replicate 2 [0, 0, 0, 0, 0, 0])
        = Return [[6, 7, 8, 9, 10], [11, 12]] c'
      \<and> rbuf c' = [] \<and> Conn c' = watched (peer_sent [13, 14])"
    by (simp add: numeral_2_eq_2 wrapped_def watched_def peer_sent_def every_host_observed_def
        serverConn_Read_def limiter_In_def waited_In_def pipe_env_def
        Buffer_Len_def Buffer_Read_def slice_to_def delivered_def Let_def)
  from stream_no_loss [OF h1 h2 h3, of ?bs] run drain h1 h2 h3 h4 show ?thesis
    by (simp add: wrapped_def)
qed

subsection \<open>The staged path and the error path\<close>

text \<open>
  C6 (staged-bytes read path). An ingress limiter \<open>l\<close> applies and the staging buffer is
  not empty. The limiter is asked for \<open>burst = min(len(b), rbuf.Len())\<close> and, keeping its
  contract, grants \<open>0 \<le> g \<le> burst\<close>. Then the call returns \<open>(g, nil)\<close> with the first
  \<open>g\<close> staged bytes at the front of \<open>b\<close>; the staging buffer loses exactly those bytes,
  the limiter is left as the \<^verbatim>\<open>Wait\<close> left it, and the connection is as it was: it has
  not been read.
\<close>

theorem staged_read_path:
  assumes L: "limiter_In (rlimiter c) (raddr c) = Some l" and ne: "rbuf c \<noteq> []"
    and W: "Wait E l (min (len b) (Buffer_Len (rbuf c))) = (g, l')"
    and g0: "0 \<le> g" and g1: "g \<le> min (len b) (Buffer_Len (rbuf c))"
  shows "serverConn_Read E c b
     = Return (g, None, take (nat g) (rbuf c) @ drop (nat g) b)
         (c\<lparr>rbuf := drop (nat g) (rbuf c),
            rlimiter := waited_In (rlimiter c) (raddr c) l'\<rparr>)"
proof -
  have pos: "Buffer_Len (rbuf c) > 0" using ne by (simp add: Buffer_Len_def)
  have burst: "(if Buffer_Len (rbuf c) < len b then Buffer_Len (rbuf c) else len b)
      = min (len b) (Buffer_Len (rbuf c))"
    by (simp add: min_def)
  have gb: "nat g \<le> length b" "nat g \<le> length (rbuf c)"
    using g0 g1 by (simp_all add: Buffer_Len_def nat_le_iff)
  have sl: "slice_to b g = Some (take (nat g) b)"
    using g0 g1 by (simp add: slice_to_def)
  have "length (take (nat g) b) = nat g" using gb by simp
  then have rd: "Buffer_Read (rbuf c) (take (nat g) b)
      = ((g, None, take (nat g) (rbuf c)), drop (nat g) (rbuf c))"
    using ne gb g0 by (simp add: Buffer_Read_def Let_def min_absorb1)
  have "serverConn_Read E c b
      = Return (g, None, take (nat g) (rbuf c) @ drop (length (take (nat g) b)) b)
          (c\<lparr>rlimiter := waited_In (rlimiter c) (raddr c) l',
             rbuf := drop (nat g) (rbuf c)\<rparr>)"
    unfolding serverConn_Read_def by (simp add: L pos burst W sl rd)
  then show ?thesis using gb by simp
qed

text \<open>Seven bytes are staged, two more wait in the connection, the limiter grants five:
  the call delivers the first five staged bytes and leaves the connection alone.\<close>

theorem staged_read_path_witness:
  "limiter_In (rlimiter (wrapped every_host (peer_sent [13, 14]) [6, 7, 8, 9, 10, 11, 12]))
      (raddr (wrapped every_host (peer_sent [13, 14]) [6, 7, 8, 9, 10, 11, 12])) = Some 0
   \<and> Wait (pipe_env 5) 0 (min (len (replicate 12 (0 :: byte)))
        (Buffer_Len (rbuf (wrapped every_host (peer_sent [13, 14]) [6, 7, 8, 9, 10, 11, 12]))))
      = (5, 1)
   \<and> serverConn_Read (pipe_env 5)
        (wrapped every_host (peer_sent [13, 14]) [6, 7, 8, 9, 10, 11, 12]) (replicate 12 0)
      = Return (5, None, [6, 7, 8, 9, 10, 0, 0, 0, 0, 0, 0, 0])
          \<lparr>Conn = peer_sent [13, 14], rbuf = [11, 12], raddr = ''10.0.0.1'',
           rlimiter = waited_In (Some every_host) ''10.0.0.1'' 1\<rparr>"
proof -
  let ?c = "wrapped every_host (peer_sent [13, 14]) [6, 7, 8, 9, 10, 11, 12]"
  let ?b = "replicate 12 (0 :: byte)"
  have h1: "limiter_In (rlimiter ?c) (raddr ?c) = Some 0"
    by (simp add: wrapped_def limiter_In_def every_host_def)
  have h2: "rbuf ?c \<noteq> []" by (simp add: wrapped_def)
  have h3: "Wait (pipe_env 5) 0 (min (len ?b) (Buffer_Len (rbuf ?c))) = (5, 1)"
    by (simp add: wrapped_def pipe_env_def Buffer_Len_def)
  have h4: "(0 :: int) \<le> 5" by simp
  have h5: "5 \<le> min (len ?b) (Buffer_Len (rbuf ?c))"
    by (simp add: wrapped_def Buffer_Len_def)
  have r: "replicate 12 (0 :: byte) = [0, 0, 0, 0, 0, 0, 0, 0, 0, 0, 0, 0]"
    by (simp add: numeral_eq_Suc)
  from staged_read_path [OF h1 h2 h3 h4 h5] h1 h3 show ?thesis
    by (simp add: wrapped_def r)
qed

text \<open>
  C5 (read error propagation), as the code has it. An ingress limiter applies, nothing
  is staged, and the connection's \<^verbatim>\<open>Read\<close> reports an error together with a count
  \<open>nn\<close>. The call returns that count and that error with the buffer as the connection
  left it; the limiter is not asked and nothing is staged. The count is the
  connection's, whatever it is: it is 0 only when the connection reports 0.
\<close>

theorem read_error_propagation:
  assumes L: "limiter_In (rlimiter c) (raddr c) = Some l" and e: "rbuf c = []"
    and R: "conn_Read E (Conn c) b = ((nn, Some e, b'), k)"
  shows "serverConn_Read E c b = Return (nn, Some e, b') (c\<lparr>Conn := k\<rparr>)"
  unfolding serverConn_Read_def by (simp add: L e R Buffer_Len_def)

text \<open>On a drained pipe the connection reports \<open>(0, EOF)\<close>, and so does the wrapper.\<close>

theorem read_error_propagation_witness:
  "limiter_In (rlimiter (wrapped every_host (peer_sent []) [])) 
      (raddr (wrapped every_host (peer_sent []) [])) = Some 0
   \<and> conn_Read (pipe_env 5) (Conn (wrapped every_host (peer_sent []) [])) [0, 0, 0, 0]
      = ((0, Some EOF, [0, 0, 0, 0]), peer_sent [])
   \<and> serverConn_Read (pipe_env 5) (wrapped every_host (peer_sent []) []) [0, 0, 0, 0]
      = Return (0, Some EOF, [0, 0, 0, 0]) (wrapped every_host (peer_sent []) [])"
proof -
  let ?c = "wrapped every_host (peer_sent []) [] :: (pipe, nat) serverConn"
  have h1: "limiter_In (rlimiter ?c) (raddr ?c) = Some 0"
    by (simp add: wrapped_def limiter_In_def every_host_def)
  have h2: "rbuf ?c = []" by (simp add: wrapped_def)
  have h3: "conn_Read (pipe_env 5) (Conn ?c) [0, 0, 0, 0]
      = ((0, Some EOF, [0, 0, 0, 0]), peer_sent [])"
    by (simp add: wrapped_def pipe_env_def pipe_Read_def peer_sent_def)
  from read_error_propagation [OF h1 h2 h3] h1 h3 show ?thesis
    by (simp add: wrapped_def)
qed

text \<open>
  C5 as stated fails: a connection that hands over its last three bytes together
  with \<^verbatim>\<open>io.EOF\<close> makes the wrapper return \<open>(3, EOF)\<close>, not \<open>n = 0\<close>.
\<close>

theorem read_error_count_counterexample:
  "serverConn_Read (pipe_env_eof 5) (wrapped every_host (peer_sent [1, 2, 3]) []) [0, 0, 0, 0]
     = Return (3, Some EOF, [1, 2, 3, 0]) (wrapped every_host (peer_sent []) [])"
  by (simp add: serverConn_Read_def pipe_env_eof_def pipe_env_def pipe_Read_eof_def
      limiter_In_def every_host_def Buffer_Len_def wrapped_def peer_sent_def)

section \<open>The stream wrapper: writing\<close>

subsection \<open>The loop returns\<close>

text \<open>
  With a limiter that grants at least one byte of a non-empty request and a connection
  that keeps \<^verbatim>\<open>io.Writer\<close>'s contract, every iteration ends the loop or shortens the
  buffer: more fuel than the buffer has bytes is enough.
\<close>

lemma Write_loop_returns:
  assumes P: "limiter_progress E" and W: "writer_contract E"
  shows "length b < fuel \<Longrightarrow> \<exists>r s. Write_loop fuel E l k b n = Some (Return r s)"
proof (induction fuel arbitrary: l k b n)
  case 0
  then show ?case by simp
next
  case (Suc fuel)
  show ?case
  proof (cases "b = []")
    case True
    then show ?thesis by simp
  next
    case False
    then have pos: "1 \<le> len b" by (cases b) simp_all
    obtain g l' where wt: "Wait E l (len b) = (g, l')" by (cases "Wait E l (len b)")
    from limiter_progressD [OF P pos wt] have g: "1 \<le> g" "g \<le> len b" .
    then have sl: "slice_to b g = Some (take (nat g) b)" by (simp add: slice_to_def)
    obtain nn err k' where cw: "conn_Write E k (take (nat g) b) = ((nn, err), k')"
      by (cases "conn_Write E k (take (nat g) b)") auto
    show ?thesis
    proof (cases err)
      case (Some e)
      then show ?thesis using False wt sl cw by simp
    next
      case None
      have lp: "len (take (nat g) b) = g" using g by simp
      from writer_contractD(3) [OF W cw None] lp have nn: "nn = g" by simp
      then have sf: "slice_from b nn = Some (drop (nat g) b)"
        using g by (simp add: slice_from_def)
      have "length (drop (nat g) b) < fuel" using g Suc.prems by simp
      from Suc.IH [OF this] obtain r s where
        "Write_loop fuel E l' k' (drop (nat g) b) (n + nn) = Some (Return r s)" by blast
      then show ?thesis using False wt sl cw None sf by simp
    qed
  qed
qed

text \<open>A limiter that grants nothing keeps the loop on a one-byte buffer for ever:
  every iteration writes the empty prefix.\<close>

lemma Write_stalls:
  "length (outbound k) \<le> room k \<Longrightarrow> Write_loop fuel (pipe_env 0) l k [1] n = None"
  by (induction fuel arbitrary: l k n)
    (simp_all add: pipe_env_def slice_to_def slice_from_def pipe_Write_def)

subsection \<open>What the loop writes\<close>

lemma Write_loop_observed:
  assumes W: "writer_contract E"
  shows "Write_loop fuel (observe E) (l, gs0) k b n0 = Some (Return (n, err) ((l', gs1), k'))
    \<Longrightarrow> \<exists>ws gs. writes k' = writes k @ ws \<and> gs1 = gs0 @ gs
          \<and> map (\<lambda>w. len (fst w)) ws = map snd gs
          \<and> prefix (concat (map fst ws)) b
          \<and> n = n0 + sum_list (map (\<lambda>w. fst (snd w)) ws)
          \<and> (case err of
                None \<Rightarrow> concat (map fst ws) = b \<and> n = n0 + len b \<and> list_all accepted ws
              | Some e \<Rightarrow> ws \<noteq> [] \<and> snd (snd (last ws)) = Some e
                    \<and> list_all accepted (butlast ws))"
proof (induction fuel arbitrary: l gs0 k b n0)
  case 0
  then show ?case by simp
next
  case (Suc fuel)
  show ?case
  proof (cases "b = []")
    case True
    with Suc.prems show ?thesis by simp
  next
    case False
    obtain g l1 where wt: "Wait E l (len b) = (g, l1)" by (cases "Wait E l (len b)")
    have sl: "slice_to b g \<noteq> None"
      using Suc.prems False wt by (auto split: option.splits)
    then have g: "0 \<le> g" "g \<le> len b" and slp: "slice_to b g = Some (take (nat g) b)"
      by (auto simp: slice_to_def split: if_splits)
    let ?p = "take (nat g) b"
    have lp: "len ?p = g" using g by simp
    obtain nn e ki where cw: "conn_Write E (inner k) ?p = ((nn, e), ki)"
      by (cases "conn_Write E (inner k) ?p") auto
    let ?k1 = "k\<lparr>inner := ki, writes := writes k @ [(?p, nn, e)]\<rparr>"
    show ?thesis
    proof (cases e)
      case (Some e')
      with Suc.prems False wt slp cw
      have "n = n0 + nn" "err = Some e'" "l' = l1" "gs1 = gs0 @ [(len b, g)]" "k' = ?k1"
        by auto
      then show ?thesis
        using lp by (intro exI [of _ "[(?p, nn, e)]"] exI [of _ "[(len b, g)]"])
          (simp add: Some take_is_prefix)
    next
      case None
      from writer_contractD(3) [OF W cw None] lp have nn: "nn = g" by simp
      then have sf: "slice_from b nn = Some (drop (nat g) b)"
        using g by (simp add: slice_from_def)
      from Suc.prems False wt slp cw None sf
      have rec: "Write_loop fuel (observe E) (l1, gs0 @ [(len b, g)]) ?k1 (drop (nat g) b) (n0 + nn)
           = Some (Return (n, err) ((l', gs1), k'))" by simp
      from Suc.IH [OF rec] obtain ws gs where
        a: "writes k' = writes ?k1 @ ws" "gs1 = (gs0 @ [(len b, g)]) @ gs"
        and b: "map (\<lambda>w. len (fst w)) ws = map snd gs"
        and c: "prefix (concat (map fst ws)) (drop (nat g) b)"
        and d: "n = (n0 + nn) + sum_list (map (\<lambda>w. fst (snd w)) ws)"
        and e: "(case err of
                None \<Rightarrow> concat (map fst ws) = drop (nat g) b \<and> n = (n0 + nn) + len (drop (nat g) b)
                   \<and> list_all accepted ws
              | Some e \<Rightarrow> ws \<noteq> [] \<and> snd (snd (last ws)) = Some e
                    \<and> list_all accepted (butlast ws))"
        by blast
      have pre: "prefix (?p @ concat (map fst ws)) b"
        using c by (metis append_take_drop_id same_prefix_prefix)
      have acc: "accepted (?p, nn, e)" using None nn lp by (simp add: accepted_def)
      show ?thesis
        using a b d e pre lp None nn g acc
        by (intro exI [of _ "(?p, nn, e) # ws"] exI [of _ "(len b, g) # gs"])
          (auto split: option.splits)
    qed
  qed
qed

text \<open>
  C3 (write chunking). An egress limiter applies and the connection keeps
  \<^verbatim>\<open>io.Writer\<close>'s contract; the environment is observed, so \<open>ws\<close> are the writes the call
  issued and \<open>gs\<close> the grants it got. Whenever the call returns: each write's argument is
  as long as the grant of the same rank, the arguments in order form a prefix of \<open>b\<close>
  (each is a prefix of what the earlier ones left), and \<open>n\<close> is the sum of the counts the
  connection reported. With no error the arguments concatenate to \<open>b\<close>, every write was
  accepted in full and \<open>n = len(b)\<close>. With an error, the error is the one of the last
  write issued, every earlier write was accepted in full, and \<open>n\<close> counts them and the
  last write's count. And the call does return, with fuel for one iteration per byte,
  when the limiter grants at least one byte of a non-empty request.
\<close>

theorem write_chunking:
  fixes E :: "('c, 'l) env"
  assumes W: "writer_contract E"
    and L: "limiter_Out (rlimiter c) (raddr c) = Some (l, gs0)"
  shows "(\<forall>fuel n err c'.
            serverConn_Write fuel (observe E) c b = Some (Return (n, err) c') \<longrightarrow>
            serverConn_Write fuel E (unobserved c) b = Some (Return (n, err) (unobserved c'))
            \<and> (\<exists>ws gs l'. writes (Conn c') = writes (Conn c) @ ws
                \<and> limiter_Out (rlimiter c') (raddr c') = Some (l', gs0 @ gs)
                \<and> map (\<lambda>w. len (fst w)) ws = map snd gs
                \<and> prefix (concat (map fst ws)) b
                \<and> n = sum_list (map (\<lambda>w. fst (snd w)) ws)
                \<and> (case err of
                      None \<Rightarrow> concat (map fst ws) = b \<and> n = len b \<and> list_all accepted ws
                    | Some e \<Rightarrow> ws \<noteq> [] \<and> snd (snd (last ws)) = Some e
                          \<and> list_all accepted (butlast ws))))
       \<and> (limiter_progress E \<longrightarrow>
            (\<exists>r c'. serverConn_Write (Suc (length b)) (observe E) c b = Some (Return r c')))"
proof (intro conjI allI impI)
  fix fuel n err c'
  assume ret: "serverConn_Write fuel (observe E) c b = Some (Return (n, err) c')"
  then obtain l' gs1 k' where
    lp: "Write_loop fuel (observe E) (l, gs0) (Conn c) b 0 = Some (Return (n, err) ((l', gs1), k'))"
    and c': "c' = c\<lparr>Conn := k', rlimiter := waited_Out (rlimiter c) (raddr c) (l', gs1)\<rparr>"
    by (auto simp: serverConn_Write_def L split: option.splits outcome.splits)
  from Write_loop_observed [OF W lp] obtain ws gs where
    w: "writes k' = writes (Conn c) @ ws" "gs1 = gs0 @ gs"
    "map (\<lambda>w. len (fst w)) ws = map snd gs"
    "prefix (concat (map fst ws)) b"
    "n = 0 + sum_list (map (\<lambda>w. fst (snd w)) ws)"
    "(case err of
        None \<Rightarrow> concat (map fst ws) = b \<and> n = 0 + len b \<and> list_all accepted ws
      | Some e \<Rightarrow> ws \<noteq> [] \<and> snd (snd (last ws)) = Some e \<and> list_all accepted (butlast ws))"
    by blast
  show "serverConn_Write fuel E (unobserved c) b = Some (Return (n, err) (unobserved c'))"
    using ret by (simp add: serverConn_Write_unobserved unobserved_outcome_def)
  show "\<exists>ws gs l'. writes (Conn c') = writes (Conn c) @ ws
                \<and> limiter_Out (rlimiter c') (raddr c') = Some (l', gs0 @ gs)
                \<and> map (\<lambda>w. len (fst w)) ws = map snd gs
                \<and> prefix (concat (map fst ws)) b
                \<and> n = sum_list (map (\<lambda>w. fst (snd w)) ws)
                \<and> (case err of
                      None \<Rightarrow> concat (map fst ws) = b \<and> n = len b \<and> list_all accepted ws
                    | Some e \<Rightarrow> ws \<noteq> [] \<and> snd (snd (last ws)) = Some e
                          \<and> list_all accepted (butlast ws))"
    using c' L w by (intro exI [of _ ws] exI [of _ gs] exI [of _ l'])
      (auto split: option.splits)
next
  assume P: "limiter_progress E"
  from Write_loop_returns [OF limiter_progress_observe [OF P] writer_contract_observe [OF W],
      of b "Suc (length b)" "(l, gs0)" "Conn c" 0]
  obtain r s where "Write_loop (Suc (length b)) (observe E) (l, gs0) (Conn c) b 0 = Some (Return r s)"
    by auto
  then show "\<exists>r c'. serverConn_Write (Suc (length b)) (observe E) c b = Some (Return r c')"
    by (cases s) (simp add: serverConn_Write_def L del: Write_loop.simps)
qed

text \<open>
  Twelve bytes through a limiter granting five: writes of five, five and two bytes.
  Through a pipe with room for seven: the second write fails and \<open>n = 5\<close>.
\<close>

theorem write_chunking_witness:
  "writer_contract (pipe_env 5) \<and> limiter_progress (pipe_env 5)
   \<and> limiter_Out (rlimiter (wrapped every_host_observed (watched (peer_sent [])) []))
        (raddr (wrapped every_host_observed (watched (peer_sent [])) [])) = Some (0, [])
   \<and> (\<exists>c'. serverConn_Write 13 (observe (pipe_env 5))
          (wrapped every_host_observed (watched (peer_sent [])) [])
          [1, 2, 3, 4, 5, 6, 7, 8, 9, 10, 11, 12] = Some (Return (12, None) c')
        \<and> writes (Conn c')
           = [([1, 2, 3, 4, 5], 5, None), ([6, 7, 8, 9, 10], 5, None), ([11, 12], 2, None)]
        \<and> limiter_Out (rlimiter c') (raddr c') = Some (3, [(12, 5), (7, 5), (2, 2)]))
   \<and> (\<exists>c'. serverConn_Write 13 (observe (pipe_env 5))
          (wrapped every_host_observed (watched ((peer_sent [])\<lparr>room := 7\<rparr>)) [])
          [1, 2, 3, 4, 5, 6, 7, 8, 9, 10, 11, 12]
            = Some (Return (5, Some (OtherError ''broken pipe'')) c')
        \<and> writes (Conn c')
           = [([1, 2, 3, 4, 5], 5, None),
              ([6, 7, 8, 9, 10], 0, Some (OtherError ''broken pipe''))])"
proof -
  let ?c = "wrapped every_host_observed (watched (peer_sent [])) []"
  let ?c7 = "wrapped every_host_observed (watched ((peer_sent [])\<lparr>room := 7\<rparr>)) []"
  let ?b = "[1, 2, 3, 4, 5, 6, 7, 8, 9, 10, 11, 12 :: byte]"
  have h1: "writer_contract (pipe_env 5)" by (rule writer_contract_pipe_env)
  have h2: "limiter_progress (pipe_env 5)" by (simp add: limiter_progress_pipe_env)
  have h3: "limiter_Out (rlimiter ?c) (raddr ?c) = Some (0, [])"
    by (simp add: wrapped_def limiter_Out_def every_host_observed_def)
  have l1: "Write_loop 13 (observe (pipe_env 5)) (0, []) (watched (peer_sent [])) ?b 0
      = Some (Return (12, None)
          ((3, [(12, 5), (7, 5), (2, 2)]),
           \<lparr>inner = (peer_sent [])\<lparr>outbound := ?b\<rparr>, reads = [],
            writes = [([1, 2, 3, 4, 5], 5, None), ([6, 7, 8, 9, 10], 5, None),
              ([11, 12], 2, None)]\<rparr>))"
    by code_simp
  have l2: "Write_loop 13 (observe (pipe_env 5)) (0, [])
        (watched ((peer_sent [])\<lparr>room := 7\<rparr>)) ?b 0
      = Some (Return (5, Some (OtherError ''broken pipe''))
          ((2, [(12, 5), (7, 5)]),
           \<lparr>inner = (peer_sent [])\<lparr>outbound := [1, 2, 3, 4, 5], room := 7\<rparr>, reads = [],
            writes = [([1, 2, 3, 4, 5], 5, None),
              ([6, 7, 8, 9, 10], 0, Some (OtherError ''broken pipe''))]\<rparr>))"
    by code_simp
  have r1: "\<exists>c'. serverConn_Write 13 (observe (pipe_env 5)) ?c ?b = Some (Return (12, None) c')
        \<and> writes (Conn c')
           = [([1, 2, 3, 4, 5], 5, None), ([6, 7, 8, 9, 10], 5, None), ([11, 12], 2, None)]
        \<and> limiter_Out (rlimiter c') (raddr c') = Some (3, [(12, 5), (7, 5), (2, 2)])"
    using l1 by (simp add: serverConn_Write_def wrapped_def limiter_Out_def waited_Out_def
        every_host_observed_def del: Write_loop.simps)
  have r2: "\<exists>c'. serverConn_Write 13 (observe (pipe_env 5)) ?c7 ?b
            = Some (Return (5, Some (OtherError ''broken pipe'')) c')
        \<and> writes (Conn c')
           = [([1, 2, 3, 4, 5], 5, None),
              ([6, 7, 8, 9, 10], 0, Some (OtherError ''broken pipe''))]"
    using l2 by (simp add: serverConn_Write_def wrapped_def limiter_Out_def waited_Out_def
        every_host_observed_def del: Write_loop.simps)
  from write_chunking [OF h1 h3, of ?b] h1 h2 h3 r1 r2 show ?thesis
    by blast
qed

subsection \<open>Termination\<close>

text \<open>
  C9 (write termination), as the code has it. The limiter grants at least one byte of
  every non-empty request and never more than requested, and the connection keeps
  \<^verbatim>\<open>io.Writer\<close>'s contract. Then \<^verbatim>\<open>Write\<close> returns, after at most one iteration per byte
  of the buffer: any fuel above \<open>len(b)\<close> is enough.
\<close>

theorem write_terminates:
  assumes P: "limiter_progress E" and W: "writer_contract E" and F: "length b < fuel"
  shows "\<exists>r c'. serverConn_Write fuel E c b = Some (Return r c')"
proof (cases "limiter_Out (rlimiter c) (raddr c)")
  case None
  then show ?thesis by (simp add: serverConn_Write_def split: prod.splits)
next
  case (Some l)
  from Write_loop_returns [OF P W F, of l "Conn c" 0]
  obtain r s where "Write_loop fuel E l (Conn c) b 0 = Some (Return r s)" by auto
  then show ?thesis by (cases s) (simp add: serverConn_Write_def Some)
qed

text \<open>Twelve bytes through a limiter granting five: thirteen iterations are enough, the
  call returns \<open>(12, nil)\<close> and the pipe holds the twelve bytes.\<close>

theorem write_terminates_witness:
  "limiter_progress (pipe_env 5) \<and> writer_contract (pipe_env 5)
   \<and> serverConn_Write 13 (pipe_env 5) (wrapped every_host (peer_sent []) [])
        [1, 2, 3, 4, 5, 6, 7, 8, 9, 10, 11, 12]
      = Some (Return (12, None)
          ((wrapped every_host (peer_sent []) [])
             \<lparr>Conn := (peer_sent [])\<lparr>outbound := [1, 2, 3, 4, 5, 6, 7, 8, 9, 10, 11, 12]\<rparr>,
              rlimiter := waited_Out (Some every_host) ''10.0.0.1'' 3\<rparr>))"
proof -
  have h1: "limiter_progress (pipe_env 5)" by (simp add: limiter_progress_pipe_env)
  have h2: "writer_contract (pipe_env 5)" by (rule writer_contract_pipe_env)
  have h3: "length [1, 2, 3, 4, 5, 6, 7, 8, 9, 10, 11, 12 :: byte] < 13" by simp
  have run: "serverConn_Write 13 (pipe_env 5) (wrapped every_host (peer_sent []) [])
        [1, 2, 3, 4, 5, 6, 7, 8, 9, 10, 11, 12]
      = Some (Return (12, None)
          ((wrapped every_host (peer_sent []) [])
             \<lparr>Conn := (peer_sent [])\<lparr>outbound := [1, 2, 3, 4, 5, 6, 7, 8, 9, 10, 11, 12]\<rparr>,
              rlimiter := waited_Out (Some every_host) ''10.0.0.1'' 3\<rparr>))"
  proof -
    have "Write_loop 13 (pipe_env 5) 0 (peer_sent []) [1, 2, 3, 4, 5, 6, 7, 8, 9, 10, 11, 12] 0
        = Some (Return (12, None)
            (3, (peer_sent [])\<lparr>outbound := [1, 2, 3, 4, 5, 6, 7, 8, 9, 10, 11, 12]\<rparr>))"
      by code_simp
    then show ?thesis
      by (simp add: serverConn_Write_def wrapped_def limiter_Out_def every_host_def
          del: Write_loop.simps)
  qed
  from write_terminates [OF h1 h2 h3, of "wrapped every_host (peer_sent []) []"] run h1 h2
  show ?thesis by simp
qed

text \<open>
  C9 as stated fails: a limiter that grants 0 satisfies \<open>0 \<le> granted \<le> requested\<close> and
  every \<^verbatim>\<open>Wait\<close> returns, but \<^verbatim>\<open>Write\<close> of one byte does not return with any fuel.
\<close>

theorem write_termination_counterexample:
  "limiter_contract (pipe_env 0)
   \<and> (\<forall>fuel. serverConn_Write fuel (pipe_env 0) (wrapped every_host (peer_sent []) []) [1] = None)"
  by (simp add: limiter_contract_pipe_env serverConn_Write_def wrapped_def limiter_Out_def
      every_host_def Write_stalls peer_sent_def)


section \<open>The datagram wrappers\<close>

subsection \<open>Reading\<close>





subsection \<open>Writing\<close>

text \<open>
  C4 (datagram write silent drop), for \<^verbatim>\<open>packetConn.WriteTo\<close>, \<^verbatim>\<open>udpConn.WriteTo\<close>,
  \<^verbatim>\<open>udpConn.WriteToUDP\<close> and \<^verbatim>\<open>udpConn.WriteMsgUDP\<close>. When the destination's host has an
  egress limiter and it grants less than \<^verbatim>\<open>len(p)\<close>, the call returns \<^verbatim>\<open>(len(p), nil)\<close>
  (with \<^verbatim>\<open>oobn = 0\<close> for \<^verbatim>\<open>WriteMsgUDP\<close>); the wrapped connection is in the state it was
  in, so nothing was written to it, and only the limiter has moved.
\<close>

theorem datagram_write_silent_drop:
  assumes L: "limiter_Out rl (hostOf E addr) = Some l"
    and G: "fst (Wait E l (len p)) < len p"
  shows "packetConn_WriteTo E \<lparr>PacketConn = k, rlimiter_p = rl\<rparr> p addr
      = ((len p, None),
         \<lparr>PacketConn = k,
          rlimiter_p = waited_Out rl (hostOf E addr) (snd (Wait E l (len p)))\<rparr>)
    \<and> udpConn_WriteTo E \<lparr>PacketConn_u = k, rlimiter_u = rl\<rparr> p addr
      = ((len p, None),
         \<lparr>PacketConn_u = k,
          rlimiter_u = waited_Out rl (hostOf E addr) (snd (Wait E l (len p)))\<rparr>)
    \<and> udpConn_WriteToUDP E \<lparr>PacketConn_u = k, rlimiter_u = rl\<rparr> p addr
      = ((len p, None),
         \<lparr>PacketConn_u = k,
          rlimiter_u = waited_Out rl (hostOf E addr) (snd (Wait E l (len p)))\<rparr>)
    \<and> udpConn_WriteMsgUDP E \<lparr>PacketConn_u = k, rlimiter_u = rl\<rparr> p oob addr
      = ((len p, 0, None),
         \<lparr>PacketConn_u = k,
          rlimiter_u = waited_Out rl (hostOf E addr) (snd (Wait E l (len p)))\<rparr>)"
proof -
  obtain g l' where W: "Wait E l (len p) = (g, l')" by (cases "Wait E l (len p)")
  with G have "g < len p" by simp
  then show ?thesis
    by (simp add: packetConn_WriteTo_def udpConn_WriteTo_def udpConn_WriteToUDP_def
        udpConn_WriteMsgUDP_def L W)
qed

text \<open>Three bytes to \<open>10.0.0.1\<close>, whose egress limiter grants nothing, on a connection
  that implements the UDP-typed writes: success is reported and nothing is sent.\<close>

theorem datagram_write_silent_drop_witness:
  "limiter_Out (Some throttle_one) (hostOf dgram_env_udp (Some (''10.0.0.1'', 53))) = Some 0
   \<and> fst (Wait dgram_env_udp 0 (len [1, 2, 3 :: byte])) < len [1, 2, 3 :: byte]
   \<and> packetConn_WriteTo dgram_env_udp
        \<lparr>PacketConn = two_datagrams, rlimiter_p = Some throttle_one\<rparr> [1, 2, 3]
        (Some (''10.0.0.1'', 53))
      = ((3, None),
         \<lparr>PacketConn = two_datagrams,
          rlimiter_p = waited_Out (Some throttle_one) ''10.0.0.1'' 0\<rparr>)
   \<and> udpConn_WriteTo dgram_env_udp
        \<lparr>PacketConn_u = two_datagrams, rlimiter_u = Some throttle_one\<rparr> [1, 2, 3]
        (Some (''10.0.0.1'', 53))
      = ((3, None),
         \<lparr>PacketConn_u = two_datagrams,
          rlimiter_u = waited_Out (Some throttle_one) ''10.0.0.1'' 0\<rparr>)
   \<and> udpConn_WriteToUDP dgram_env_udp
        \<lparr>PacketConn_u = two_datagrams, rlimiter_u = Some throttle_one\<rparr> [1, 2, 3]
        (Some (''10.0.0.1'', 53))
      = ((3, None),
         \<lparr>PacketConn_u = two_datagrams,
          rlimiter_u = waited_Out (Some throttle_one) ''10.0.0.1'' 0\<rparr>)
   \<and> udpConn_WriteMsgUDP dgram_env_udp
        \<lparr>PacketConn_u = two_datagrams, rlimiter_u = Some throttle_one\<rparr> [1, 2, 3] [9]
        (Some (''10.0.0.1'', 53))
      = ((3, 0, None),
         \<lparr>PacketConn_u = two_datagrams,
          rlimiter_u = waited_Out (Some throttle_one) ''10.0.0.1'' 0\<rparr>)"
proof -
  have h1: "limiter_Out (Some throttle_one) (hostOf dgram_env_udp (Some (''10.0.0.1'', 53)))
      = Some 0"
    by (simp add: limiter_Out_def throttle_one_def dgram_env_udp_def dgram_env_def)
  have h2: "fst (Wait dgram_env_udp 0 (len [1, 2, 3 :: byte])) < len [1, 2, 3 :: byte]"
    by (simp add: dgram_env_udp_def dgram_env_def)
  have e: "hostOf dgram_env_udp (Some (''10.0.0.1'', 53)) = ''10.0.0.1''"
    "snd (Wait dgram_env_udp 0 3) = 0"
    by (simp_all add: dgram_env_udp_def dgram_env_def)
  from datagram_write_silent_drop [OF h1 h2, of two_datagrams "[9]"] h1 h2 show ?thesis
    by (simp add: e)
qed

text \<open>
  C10 (the limit check runs before the capability probe). The connection's type does
  not implement \<^verbatim>\<open>udp.WriteUDP\<close>. Then \<^verbatim>\<open>WriteToUDP\<close> and \<^verbatim>\<open>WriteMsgUDP\<close> return
  \<^verbatim>\<open>(len(b), nil)\<close> when the destination's egress limiter grants less than \<^verbatim>\<open>len(b)\<close>,
  and the unsupported-operation error exactly otherwise: when the limiter admits the
  datagram or no limiter applies. The connection is not touched either way.
\<close>

theorem udp_write_limit_before_probe:
  assumes U: "as_WriteUDP E = None"
  shows "fst (udpConn_WriteToUDP E c b addr)
      = (if declines E (rlimiter_u c) addr b then (len b, None) else (0, Some errUnsupport))
    \<and> fst (udpConn_WriteMsgUDP E c b oob addr)
      = (if declines E (rlimiter_u c) addr b then (len b, 0, None)
         else (0, 0, Some errUnsupport))
    \<and> PacketConn_u (snd (udpConn_WriteToUDP E c b addr)) = PacketConn_u c
    \<and> PacketConn_u (snd (udpConn_WriteMsgUDP E c b oob addr)) = PacketConn_u c"
  by (auto simp: udpConn_WriteToUDP_def udpConn_WriteMsgUDP_def declines_def U Let_def
      split: prod.splits option.splits)

theorem udp_write_limit_before_probe_witness:
  "as_WriteUDP dgram_env = None
   \<and> declines dgram_env (Some throttle_one) (Some (''10.0.0.1'', 53)) [1, 2, 3]
   \<and> fst (udpConn_WriteToUDP dgram_env
        \<lparr>PacketConn_u = two_datagrams, rlimiter_u = Some throttle_one\<rparr> [1, 2, 3]
        (Some (''10.0.0.1'', 53))) = (3, None)
   \<and> fst (udpConn_WriteMsgUDP dgram_env
        \<lparr>PacketConn_u = two_datagrams, rlimiter_u = Some throttle_one\<rparr> [1, 2, 3] [9]
        (Some (''10.0.0.1'', 53))) = (3, 0, None)
   \<and> \<not> declines dgram_env (Some throttle_one) (Some (''10.0.0.2'', 53)) [1, 2, 3]
   \<and> fst (udpConn_WriteToUDP dgram_env
        \<lparr>PacketConn_u = two_datagrams, rlimiter_u = Some throttle_one\<rparr> [1, 2, 3]
        (Some (''10.0.0.2'', 53))) = (0, Some errUnsupport)
   \<and> fst (udpConn_WriteMsgUDP dgram_env
        \<lparr>PacketConn_u = two_datagrams, rlimiter_u = Some throttle_one\<rparr> [1, 2, 3] [9]
        (Some (''10.0.0.2'', 53))) = (0, 0, Some errUnsupport)"
proof -
  let ?c = "\<lparr>PacketConn_u = two_datagrams, rlimiter_u = Some throttle_one\<rparr>"
  have h: "as_WriteUDP dgram_env = None" by (simp add: dgram_env_def)
  have d1: "declines dgram_env (Some throttle_one) (Some (''10.0.0.1'', 53)) [1, 2, 3]"
    by (simp add: declines_def limiter_Out_def throttle_one_def dgram_env_def)
  have d2: "\<not> declines dgram_env (Some throttle_one) (Some (''10.0.0.2'', 53)) [1, 2, 3]"
    by (simp add: declines_def limiter_Out_def throttle_one_def dgram_env_def)
  from udp_write_limit_before_probe [OF h, of ?c "[1, 2, 3]" "Some (''10.0.0.1'', 53)" "[9]"]
    udp_write_limit_before_probe [OF h, of ?c "[1, 2, 3]" "Some (''10.0.0.2'', 53)" "[9]"]
    h d1 d2
  show ?thesis by simp
qed

subsection \<open>Capability probes\<close>

text \<open>
  C8 (capability-probe failure mode), as the code has it. When the connection's type
  does not implement the interface probed for: \<^verbatim>\<open>SetReadBuffer\<close>, \<^verbatim>\<open>SetWriteBuffer\<close>,
  \<^verbatim>\<open>Read\<close>, \<^verbatim>\<open>Write\<close>, \<^verbatim>\<open>ReadFromUDP\<close>, \<^verbatim>\<open>ReadMsgUDP\<close> and \<^verbatim>\<open>SyscallConn\<close> fail with the
  unsupported-operation error, with zero counts, and leave the wrapper, its connection
  and its limiters as they were; \<^verbatim>\<open>WriteToUDP\<close> and \<^verbatim>\<open>WriteMsgUDP\<close> fail with that error
  when the egress limiter does not refuse the datagram, and leave the connection as it
  was; \<^verbatim>\<open>RemoteAddr\<close>, which has no error result, returns the \<^verbatim>\<open>nil\<close> address; \<^verbatim>\<open>SetDSCP\<close>
  returns a \<^verbatim>\<open>nil\<close> error and does nothing.
\<close>

theorem capability_probe_unsupported:
  "(as_SetBuffer E = None \<longrightarrow>
      udpConn_SetReadBuffer E c n = (Some errUnsupport, c)
      \<and> udpConn_SetWriteBuffer E c n = (Some errUnsupport, c))
   \<and> (as_Reader E = None \<longrightarrow> udpConn_Read E c b = ((0, Some errUnsupport, b), c))
   \<and> (as_Writer E = None \<longrightarrow> udpConn_Write E c b = ((0, Some errUnsupport), c))
   \<and> (as_ReadUDP E = None \<longrightarrow>
      udpConn_ReadFromUDP fuel E c b = Some ((0, None, Some errUnsupport, b), c)
      \<and> udpConn_ReadMsgUDP fuel E c b oob
          = Some ((0, 0, 0, None, Some errUnsupport, b, oob), c))
   \<and> (as_WriteUDP E = None \<and> \<not> declines E (rlimiter_u c) addr b \<longrightarrow>
      fst (udpConn_WriteToUDP E c b addr) = (0, Some errUnsupport)
      \<and> fst (udpConn_WriteMsgUDP E c b oob addr) = (0, 0, Some errUnsupport)
      \<and> PacketConn_u (snd (udpConn_WriteToUDP E c b addr)) = PacketConn_u c
      \<and> PacketConn_u (snd (udpConn_WriteMsgUDP E c b oob addr)) = PacketConn_u c)
   \<and> (as_SyscallConn E = None \<longrightarrow> udpConn_SyscallConn E c = ((None, Some errUnsupport), c))
   \<and> (as_RemoteAddr E = None \<longrightarrow> udpConn_RemoteAddr E c = None)
   \<and> (as_SetDSCP E = None \<longrightarrow> udpConn_SetDSCP E c n = (None, c))"
  by (auto simp: udpConn_SetReadBuffer_def udpConn_SetWriteBuffer_def udpConn_Read_def
      udpConn_Write_def udpConn_ReadFromUDP_def udpConn_ReadMsgUDP_def udpConn_SyscallConn_def
      udpConn_RemoteAddr_def udpConn_SetDSCP_def udpConn_WriteToUDP_def udpConn_WriteMsgUDP_def
      declines_def Let_def split: prod.splits option.splits)

theorem capability_probe_unsupported_witness:
  "as_SetBuffer dgram_env = None \<and> as_Reader dgram_env = None \<and> as_Writer dgram_env = None
   \<and> as_ReadUDP dgram_env = None \<and> as_WriteUDP dgram_env = None
   \<and> as_SyscallConn dgram_env = None \<and> as_RemoteAddr dgram_env = None
   \<and> as_SetDSCP dgram_env = None
   \<and> \<not> declines dgram_env (Some throttle_one) (Some (''10.0.0.2'', 53)) [1, 2, 3]
   \<and> udpConn_SetReadBuffer dgram_env
        \<lparr>PacketConn_u = two_datagrams, rlimiter_u = Some throttle_one\<rparr> 4096
      = (Some errUnsupport, \<lparr>PacketConn_u = two_datagrams, rlimiter_u = Some throttle_one\<rparr>)
   \<and> udpConn_SetWriteBuffer dgram_env
        \<lparr>PacketConn_u = two_datagrams, rlimiter_u = Some throttle_one\<rparr> 4096
      = (Some errUnsupport, \<lparr>PacketConn_u = two_datagrams, rlimiter_u = Some throttle_one\<rparr>)
   \<and> udpConn_Read dgram_env
        \<lparr>PacketConn_u = two_datagrams, rlimiter_u = Some throttle_one\<rparr> [1, 2, 3]
      = ((0, Some errUnsupport, [1, 2, 3]),
         \<lparr>PacketConn_u = two_datagrams, rlimiter_u = Some throttle_one\<rparr>)
   \<and> udpConn_Write dgram_env
        \<lparr>PacketConn_u = two_datagrams, rlimiter_u = Some throttle_one\<rparr> [1, 2, 3]
      = ((0, Some errUnsupport),
         \<lparr>PacketConn_u = two_datagrams, rlimiter_u = Some throttle_one\<rparr>)
   \<and> udpConn_ReadFromUDP 1 dgram_env
        \<lparr>PacketConn_u = two_datagrams, rlimiter_u = Some throttle_one\<rparr> [1, 2, 3]
      = Some ((0, None, Some errUnsupport, [1, 2, 3]),
         \<lparr>PacketConn_u = two_datagrams, rlimiter_u = Some throttle_one\<rparr>)
   \<and> udpConn_ReadMsgUDP 1 dgram_env
        \<lparr>PacketConn_u = two_datagrams, rlimiter_u = Some throttle_one\<rparr> [1, 2, 3] [9]
      = Some ((0, 0, 0, None, Some errUnsupport, [1, 2, 3], [9]),
         \<lparr>PacketConn_u = two_datagrams, rlimiter_u = Some throttle_one\<rparr>)
   \<and> fst (udpConn_WriteToUDP dgram_env
        \<lparr>PacketConn_u = two_datagrams, rlimiter_u = Some throttle_one\<rparr> [1, 2, 3]
        (Some (''10.0.0.2'', 53))) = (0, Some errUnsupport)
   \<and> fst (udpConn_WriteMsgUDP dgram_env
        \<lparr>PacketConn_u = two_datagrams, rlimiter_u = Some throttle_one\<rparr> [1, 2, 3] [9]
        (Some (''10.0.0.2'', 53))) = (0, 0, Some errUnsupport)
   \<and> udpConn_SyscallConn dgram_env
        \<lparr>PacketConn_u = two_datagrams, rlimiter_u = Some throttle_one\<rparr>
      = ((None, Some errUnsupport),
         \<lparr>PacketConn_u = two_datagrams, rlimiter_u = Some throttle_one\<rparr>)
   \<and> udpConn_RemoteAddr dgram_env
        \<lparr>PacketConn_u = two_datagrams, rlimiter_u = Some throttle_one\<rparr> = None
   \<and> udpConn_SetDSCP dgram_env
        \<lparr>PacketConn_u = two_datagrams, rlimiter_u = Some throttle_one\<rparr> 46
      = (None, \<lparr>PacketConn_u = two_datagrams, rlimiter_u = Some throttle_one\<rparr>)"
proof -
  let ?c = "\<lparr>PacketConn_u = two_datagrams, rlimiter_u = Some throttle_one\<rparr>"
  have h: "as_SetBuffer dgram_env = None" "as_Reader dgram_env = None"
    "as_Writer dgram_env = None" "as_ReadUDP dgram_env = None" "as_WriteUDP dgram_env = None"
    "as_SyscallConn dgram_env = None" "as_RemoteAddr dgram_env = None"
    "as_SetDSCP dgram_env = None"
    by (simp_all add: dgram_env_def)
  have d: "\<not> declines dgram_env (rlimiter_u ?c) (Some (''10.0.0.2'', 53)) [1, 2, 3]"
    by (simp add: declines_def limiter_Out_def throttle_one_def dgram_env_def)
  from capability_probe_unsupported [where E = dgram_env and c = ?c and n = 4096
      and b = "[1, 2, 3]" and fuel = 1 and oob = "[9]" and addr = "Some (''10.0.0.2'', 53)"]
    capability_probe_unsupported [where E = dgram_env and c = ?c and n = 46
      and b = "[1, 2, 3]" and fuel = 1 and oob = "[9]" and addr = "Some (''10.0.0.2'', 53)"]
    h d
  show ?thesis by simp
qed

text \<open>
  C8 as stated fails: on a connection with none of the optional interfaces,
  \<^verbatim>\<open>RemoteAddr\<close> returns \<^verbatim>\<open>nil\<close> and no error, and \<^verbatim>\<open>WriteToUDP\<close> to a host whose egress
  limiter grants nothing returns \<open>(3, nil)\<close> for three bytes.
\<close>

theorem capability_probe_counterexample:
  "as_RemoteAddr dgram_env = None
   \<and> udpConn_RemoteAddr dgram_env
        \<lparr>PacketConn_u = two_datagrams, rlimiter_u = Some throttle_one\<rparr> = None
   \<and> as_WriteUDP dgram_env = None
   \<and> fst (udpConn_WriteToUDP dgram_env
        \<lparr>PacketConn_u = two_datagrams, rlimiter_u = Some throttle_one\<rparr> [1, 2, 3]
        (Some (''10.0.0.1'', 53))) = (3, None)"
  by (simp add: udpConn_RemoteAddr_def udpConn_WriteToUDP_def dgram_env_def limiter_Out_def
      throttle_one_def Let_def)

section \<open>The fast paths\<close>



end
